theory Spec2Isabelle
  imports Complex_Main
begin

section \<open>Shared types (src/shared/types.ts)\<close>

text \<open>
  JavaScript numbers that carry adjustment amounts are modelled as reals (no NaN, no
  rounding error); counters and indices are naturals. An optional property
  (\<^verbatim>\<open>x?: T\<close>) is an \<open>option\<close>; a truthiness test on it is written out.
\<close>

text \<open>\<^verbatim>\<open>{ hue, saturation, luminance }\<close>: one zone of the colour grading, one colour of the HSL panel.\<close>

record ColorZone =
  zone_hue :: real
  zone_saturation :: real
  zone_luminance :: real

text \<open>\<^verbatim>\<open>colorGrading.shadows\<close> is tested for presence by the pipeline, so it is optional here.\<close>

record ColorGrading =
  cg_shadows :: "ColorZone option"
  cg_midtones :: ColorZone
  cg_highlights :: ColorZone
  globalSaturation :: real
  globalLuminance :: real
  cg_balance :: real

record ToneCurve =
  tc_highlights :: real
  tc_lights :: real
  tc_darks :: real
  tc_shadows :: real
  parametricHighlights :: real
  parametricLights :: real
  parametricDarks :: real
  parametricShadows :: real

record SplitTone =
  st_hue :: real
  st_saturation :: real

record SplitToning =
  st_highlights :: SplitTone
  st_shadows :: SplitTone
  st_balance :: real

record LensCorrections =
  chromaticAberration :: real
  distortion :: real
  vignetting :: real
  fringing :: real

datatype hsl_color = Red | Orange | Yellow | Green | Aqua | Blue | Purple | Magenta

text \<open>
  \<open>PhotoAdjustments\<close>. The fields \<^verbatim>\<open>luminance\<close>, \<^verbatim>\<open>saturationHSL\<close>, \<^verbatim>\<open>lightness\<close> and
  \<^verbatim>\<open>localAdjustments\<close> of the interface are read by none of the functions below and are
  left out. \<open>hslAdjustments\<close> is not declared by the interface: the pipeline reads it
  through a cast to \<^verbatim>\<open>any\<close>, as an object with one optional zone per colour (here the list
  of the colours present, each with its zone).
\<close>

record PhotoAdjustments =
  exposure :: real
  contrast :: real
  highlights :: real
  shadows :: real
  whites :: real
  blacks :: real
  temperature :: real
  tint :: real
  vibrance :: real
  saturation :: real
  sharpening :: real
  noiseReduction :: real
  vignette :: "real option"
  clarity :: real
  dehaze :: real
  colorGrading :: "ColorGrading option"
  toneCurve :: "ToneCurve option"
  splitToning :: "SplitToning option"
  lensCorrections :: "LensCorrections option"
  hslAdjustments :: "(hsl_color \<times> ColorZone) list option"

record FileNaming =
  prefix :: "string option"
  suffix :: "string option"
  includeIndex :: "bool option"

record ExportOptions =
  format :: string
  quality :: real
  width :: "real option"
  height :: "real option"
  fit :: "string option"
  colorSpace :: "string option"
  resolution :: "real option"
  overwrite :: "bool option"
  fileNaming :: "FileNaming option"

section \<open>The batch job (BatchProcessor.ts)\<close>

datatype job_status = Pending | Processing | Completed | Failed

text \<open>\<open>BatchJob\<close>; dates are milliseconds since the epoch. The field \<^verbatim>\<open>id\<close> is \<open>job_id\<close> here.\<close>

record BatchJob =
  job_id :: string
  name :: string
  inputFiles :: "string list"
  outputDirectory :: string
  adjustments :: PhotoAdjustments
  exportOptions :: ExportOptions
  status :: job_status
  progress :: int
  createdDate :: nat
  startedDate :: "nat option"
  completedDate :: "nat option"
  errors :: "string list"
  processedFiles :: nat
  totalFiles :: nat

section \<open>Node's path module (POSIX flavour) and string helpers\<close>

text \<open>
  \<^verbatim>\<open>path.basename(p)\<close>: the last portion of the path, trailing separators ignored; the
  empty string when the path holds separators only.
\<close>

definition path_basename :: "string \<Rightarrow> string" where
  "path_basename p =
     rev (takeWhile (\<lambda>c. c \<noteq> CHR ''/'') (dropWhile (\<lambda>c. c = CHR ''/'') (rev p)))"

text \<open>
  \<^verbatim>\<open>path.parse(p)\<close>, the properties \<^verbatim>\<open>base\<close>, \<^verbatim>\<open>ext\<close> and \<^verbatim>\<open>name\<close>: the extension starts at
  the last dot of the base, provided the base has a dot, its last dot is not its first
  character, and the base is not \<^verbatim>\<open>..\<close>.
\<close>

record ParsedPath =
  pp_base :: string
  pp_ext :: string
  pp_name :: string

definition path_parse :: "string \<Rightarrow> ParsedPath" where
  "path_parse p =
     (let b = path_basename p;
          startDot = length b - Suc (length (takeWhile (\<lambda>c. c \<noteq> CHR ''.'') (rev b)))
      in if CHR ''.'' \<in> set b \<and> 0 < startDot \<and> b \<noteq> ''..''
         then \<lparr>pp_base = b, pp_ext = drop startDot b, pp_name = take startDot b\<rparr>
         else \<lparr>pp_base = b, pp_ext = '''', pp_name = b\<rparr>)"

text \<open>\<^verbatim>\<open>n.toString()\<close> for a non-negative integer, and \<^verbatim>\<open>s.padStart(n, c)\<close>.\<close>

function toString_nat :: "nat \<Rightarrow> string" where
  "toString_nat n =
     (if n < 10 then [''0123456789'' ! n]
      else toString_nat (n div 10) @ [''0123456789'' ! (n mod 10)])"
  by pat_completeness auto
termination
  by (relation "measure (\<lambda>n. n)") auto

declare toString_nat.simps [simp del]

definition padStart :: "nat \<Rightarrow> char \<Rightarrow> string \<Rightarrow> string" where
  "padStart n c s = replicate (n - length s) c @ s"

text \<open>A string property is truthy when it is present and not empty.\<close>

definition truthy_string :: "string option \<Rightarrow> bool" where
  "truthy_string s = (case s of None \<Rightarrow> False | Some v \<Rightarrow> v \<noteq> [])"

subsection \<open>\<open>BatchProcessor.generateOutputFilename\<close>\<close>

text \<open>\<^verbatim>\<open>options.fileNaming?.prefix\<close> and its siblings: \<open>None\<close> when \<open>fileNaming\<close> is absent.\<close>

definition naming_prefix :: "ExportOptions \<Rightarrow> string option" where
  "naming_prefix opts = (case fileNaming opts of None \<Rightarrow> None | Some fnm \<Rightarrow> prefix fnm)"

definition naming_suffix :: "ExportOptions \<Rightarrow> string option" where
  "naming_suffix opts = (case fileNaming opts of None \<Rightarrow> None | Some fnm \<Rightarrow> suffix fnm)"

definition naming_includeIndex :: "ExportOptions \<Rightarrow> bool option" where
  "naming_includeIndex opts = (case fileNaming opts of None \<Rightarrow> None | Some fnm \<Rightarrow> includeIndex fnm)"

definition generateOutputFilename :: "string \<Rightarrow> BatchJob \<Rightarrow> nat \<Rightarrow> string" where
  "generateOutputFilename inputFile job index =
     (let parsed = path_parse inputFile;
          extension =
            (if format (exportOptions job) = ''jpeg'' then ''.jpg''
             else if format (exportOptions job) = ''png'' then ''.png''
             else if format (exportOptions job) = ''tiff'' then ''.tiff''
             else pp_ext parsed);
          basename0 = pp_name parsed;
          basename1 =
            (if truthy_string (naming_prefix (exportOptions job))
             then the (naming_prefix (exportOptions job)) @ basename0 else basename0);
          basename2 =
            (if truthy_string (naming_suffix (exportOptions job))
             then basename1 @ the (naming_suffix (exportOptions job)) else basename1);
          basename3 =
            (if naming_includeIndex (exportOptions job) = Some True
             then basename2 @ ''_'' @ padStart 3 (CHR ''0'') (toString_nat (index + 1))
             else basename2)
      in basename3 @ extension)"

section \<open>The environment: file system, clock and the sharp codec\<close>

text \<open>
  The code reaches the outside through Node's \<^verbatim>\<open>fs\<close> and \<^verbatim>\<open>path\<close> modules and through the
  sharp library. They are parameters of the model: a record of functions over a world
  \<open>'w\<close> (the disk, the clock). A sharp instance is the input it was opened on and the
  chainable calls made on it so far, in order: the pixels are the library's business.
  A thrown \<^verbatim>\<open>Error\<close> is its message.
\<close>

type_synonym buffer = "nat list"

datatype sharp_input = FromFile string | FromBuffer buffer

datatype sharp_call =
    Sharp_gamma real
  | Sharp_linear real real
  | Sharp_modulate "real option" "real option" "real option"
  | Sharp_sharpen real real real
  | Sharp_median real
  | Sharp_blur real
  | Sharp_resize "real option" "real option" string bool
  | Sharp_jpeg real bool bool
  | Sharp_png real real bool
  | Sharp_webp real real
  | Sharp_tiff real string

text \<open>
  \<open>Sharp_modulate brightness saturation hue\<close>, \<open>Sharp_sharpen sigma m1 m2\<close>,
  \<open>Sharp_resize width height fit withoutEnlargement\<close>, \<open>Sharp_jpeg quality progressive mozjpeg\<close>,
  \<open>Sharp_png quality compressionLevel progressive\<close>, \<open>Sharp_webp quality effort\<close>,
  \<open>Sharp_tiff quality compression\<close>.
\<close>

record sharp =
  source :: sharp_input
  calls :: "sharp_call list"

record 'w node =
  existsSync :: "'w \<Rightarrow> string \<Rightarrow> bool"
  mkdirSync :: "'w \<Rightarrow> string \<Rightarrow> string option \<times> 'w"
  path_join :: "string \<Rightarrow> string \<Rightarrow> string"
  date_now :: "'w \<Rightarrow> nat"
  sharp_rejects :: "sharp_call \<Rightarrow> string option"
  sharp_metadata :: "'w \<Rightarrow> sharp \<Rightarrow> string + (real option \<times> real option)"
  sharp_toBuffer :: "'w \<Rightarrow> sharp \<Rightarrow> string + buffer"
  sharp_toFile :: "'w \<Rightarrow> sharp \<Rightarrow> string \<Rightarrow> string option \<times> 'w"

text \<open>
  \<open>mkdirSync\<close> (recursive) and \<open>sharp_toFile\<close> return the message of the error they throw, if
  any, and the world they leave. \<open>sharp_rejects\<close> is the parameter validation of a
  chainable call: the message it throws with, or \<open>None\<close>. \<open>sharp_metadata\<close> gives the width
  and the height.
\<close>

definition sharp_open :: "sharp_input \<Rightarrow> sharp" where
  "sharp_open i = \<lparr>source = i, calls = []\<rparr>"

text \<open>One chainable call: it throws, or the instance records it and is returned.\<close>

definition sharp_call :: "'w node \<Rightarrow> sharp_call \<Rightarrow> sharp \<Rightarrow> string + sharp" where
  "sharp_call nd c img =
     (case sharp_rejects nd c of
        Some msg \<Rightarrow> Inl msg
      | None \<Rightarrow> Inr (img\<lparr>calls := calls img @ [c]\<rparr>))"

text \<open>Sequencing of statements that may throw.\<close>

definition and_then :: "'e + 'a \<Rightarrow> ('a \<Rightarrow> 'e + 'b) \<Rightarrow> 'e + 'b" where
  "and_then r f = (case r of Inl e \<Rightarrow> Inl e | Inr x \<Rightarrow> f x)"

definition truthy_num :: "real option \<Rightarrow> bool" where
  "truthy_num x = (case x of None \<Rightarrow> False | Some v \<Rightarrow> v \<noteq> 0)"

text \<open>\<^verbatim>\<open>Math.round\<close>: to the nearest integer, halves upwards.\<close>

definition Math_round :: "real \<Rightarrow> int" where
  "Math_round x = \<lfloor>x + 1 / 2\<rfloor>"

section \<open>The adjustment pipeline (PhotoProcessor.ts)\<close>

text \<open>
  The private helpers catch every error and return the instance they hold: the calls
  that went through before the throw stay recorded.
\<close>

definition applyVignette :: "'w node \<Rightarrow> 'w \<Rightarrow> sharp \<Rightarrow> real \<Rightarrow> sharp" where
  "applyVignette nd w img vignetteAmount =
     (case sharp_metadata nd w img of
        Inl e \<Rightarrow> img
      | Inr (mw, mh) \<Rightarrow>
          if \<not> truthy_num mw \<or> \<not> truthy_num mh then img
          else
            let vignetteStrength = \<bar>vignetteAmount\<bar> / 100;
                vignetteMultiplier =
                  (if vignetteAmount > 0 then 1 - vignetteStrength * 0.4
                   else 1 + vignetteStrength * 0.3)
            in (case sharp_call nd (Sharp_modulate (Some vignetteMultiplier) None None) img of
                  Inl e \<Rightarrow> img
                | Inr img1 \<Rightarrow> img1))"

definition applyDehaze :: "'w node \<Rightarrow> sharp \<Rightarrow> real \<Rightarrow> sharp" where
  "applyDehaze nd img dehazeAmount =
     (let dehazeStrength = dehazeAmount / 100;
          m = (if dehazeAmount > 0
               then Sharp_modulate (Some (1 + dehazeStrength * 0.1)) (Some (1 + dehazeStrength * 0.2)) None
               else Sharp_modulate (Some (1 - \<bar>dehazeStrength\<bar> * 0.1)) (Some (1 - \<bar>dehazeStrength\<bar> * 0.3)) None);
          l = (if dehazeAmount > 0
               then Sharp_linear (1 + dehazeStrength * 0.3) 0
               else Sharp_linear (1 - \<bar>dehazeStrength\<bar> * 0.2) (\<bar>dehazeStrength\<bar> * 20))
      in (case sharp_call nd m img of
            Inl e \<Rightarrow> img
          | Inr img1 \<Rightarrow>
              (case sharp_call nd l img1 of Inl e \<Rightarrow> img1 | Inr img2 \<Rightarrow> img2)))"

definition applyColorGrading :: "'w node \<Rightarrow> sharp \<Rightarrow> ColorGrading \<Rightarrow> sharp" where
  "applyColorGrading nd img grading =
     (case cg_shadows grading of
        None \<Rightarrow> img
      | Some z \<Rightarrow>
          if zone_hue z \<noteq> 0 \<or> zone_saturation z \<noteq> 0 \<or> zone_luminance z \<noteq> 0
          then (case sharp_call nd
                       (Sharp_modulate (Some (1 + zone_luminance z / 100))
                          (Some (1 + zone_saturation z / 100)) (Some (zone_hue z * 0.1))) img of
                  Inl e \<Rightarrow> img
                | Inr img1 \<Rightarrow> img1)
          else img)"

definition applyLensCorrections :: "'w node \<Rightarrow> 'w \<Rightarrow> sharp \<Rightarrow> LensCorrections \<Rightarrow> sharp" where
  "applyLensCorrections nd w img corrections =
     (if vignetting corrections \<noteq> 0
      then applyVignette nd w img (- vignetting corrections)
      else img)"

definition hsl_colors :: "hsl_color list" where
  "hsl_colors = [Red, Orange, Yellow, Green, Aqua, Blue, Purple, Magenta]"

fun applyHSL_loop :: "'w node \<Rightarrow> (hsl_color \<times> ColorZone) list \<Rightarrow> hsl_color list \<Rightarrow> sharp \<Rightarrow> sharp" where
  "applyHSL_loop nd hsl [] img = img"
| "applyHSL_loop nd hsl (color # colors) img =
     (case map_of hsl color of
        None \<Rightarrow> applyHSL_loop nd hsl colors img
      | Some z \<Rightarrow>
          if zone_hue z \<noteq> 0 \<or> zone_saturation z \<noteq> 0 \<or> zone_luminance z \<noteq> 0
          then (case sharp_call nd
                       (Sharp_modulate (Some (1 + zone_luminance z / 100))
                          (Some (1 + zone_saturation z / 100)) (Some (zone_hue z * 0.1))) img of
                  Inl e \<Rightarrow> img
                | Inr img1 \<Rightarrow> applyHSL_loop nd hsl colors img1)
          else applyHSL_loop nd hsl colors img)"

definition applyHSLAdjustments :: "'w node \<Rightarrow> sharp \<Rightarrow> (hsl_color \<times> ColorZone) list \<Rightarrow> sharp" where
  "applyHSLAdjustments nd img hsl = applyHSL_loop nd hsl hsl_colors img"

definition applyToneCurve :: "'w node \<Rightarrow> sharp \<Rightarrow> ToneCurve \<Rightarrow> sharp" where
  "applyToneCurve nd img curve =
     (case (if tc_highlights curve \<noteq> 0
            then sharp_call nd (Sharp_linear (1 + tc_highlights curve / 200) 0) img
            else Inr img) of
        Inl e \<Rightarrow> img
      | Inr img1 \<Rightarrow>
          (case (if tc_shadows curve \<noteq> 0
                 then sharp_call nd (Sharp_modulate (Some (1 + tc_shadows curve / 200)) None None) img1
                 else Inr img1) of
             Inl e \<Rightarrow> img1
           | Inr img2 \<Rightarrow> img2))"

definition applySplitToning :: "'w node \<Rightarrow> sharp \<Rightarrow> SplitToning \<Rightarrow> sharp" where
  "applySplitToning nd img toning =
     (if st_hue (st_highlights toning) \<noteq> 0 \<or> st_hue (st_shadows toning) \<noteq> 0
      then (case sharp_call nd
                   (Sharp_modulate None None
                      (Some ((st_hue (st_highlights toning) + st_hue (st_shadows toning)) * 0.05))) img of
              Inl e \<Rightarrow> img
            | Inr img1 \<Rightarrow> img1)
      else img)"

subsection \<open>\<open>PhotoProcessor.processPhoto\<close>\<close>

text \<open>
  The instance built by the stages, before \<^verbatim>\<open>toBuffer\<close>. A call that throws in this body
  is rethrown by the \<^verbatim>\<open>catch\<close> of \<open>processPhoto\<close>.
\<close>

definition processPhoto_stages :: "'w node \<Rightarrow> 'w \<Rightarrow> string \<Rightarrow> PhotoAdjustments \<Rightarrow> string + sharp" where
  "processPhoto_stages nd w filePath adj =
     and_then (Inr (sharp_open (FromFile filePath))) (\<lambda>img.
     and_then (if exposure adj \<noteq> 0
               then sharp_call nd (Sharp_gamma (2 powr exposure adj)) img
               else Inr img) (\<lambda>img.
     and_then (if contrast adj \<noteq> 0
               then sharp_call nd (Sharp_linear (1 + contrast adj / 100) 0) img
               else Inr img) (\<lambda>img.
     and_then (if highlights adj \<noteq> 0 \<or> shadows adj \<noteq> 0
               then sharp_call nd
                      (Sharp_modulate (Some (1 + (shadows adj - highlights adj) / 200)) None None) img
               else Inr img) (\<lambda>img.
     and_then (if whites adj \<noteq> 0 \<or> blacks adj \<noteq> 0
               then sharp_call nd
                      (Sharp_linear (1 + whites adj / 100 * 0.5) (blacks adj / 100 * 10)) img
               else Inr img) (\<lambda>img.
     and_then (if saturation adj \<noteq> 0 \<or> vibrance adj \<noteq> 0
               then sharp_call nd
                      (Sharp_modulate None (Some (1 + (saturation adj + vibrance adj) / 200)) None) img
               else Inr img) (\<lambda>img.
     and_then (if temperature adj \<noteq> 0 \<or> tint adj \<noteq> 0
               then sharp_call nd
                      (Sharp_modulate None None
                         (Some ((temperature adj / 1000 * 0.5 + tint adj / 1000 * 0.3) * 180))) img
               else Inr img) (\<lambda>img.
     and_then (Inr (case toneCurve adj of
                      Some curve \<Rightarrow> applyToneCurve nd img curve | None \<Rightarrow> img)) (\<lambda>img.
     and_then (Inr (case colorGrading adj of
                      Some grading \<Rightarrow> applyColorGrading nd img grading | None \<Rightarrow> img)) (\<lambda>img.
     and_then (Inr (case hslAdjustments adj of
                      Some hsl \<Rightarrow> applyHSLAdjustments nd img hsl | None \<Rightarrow> img)) (\<lambda>img.
     and_then (if sharpening adj > 0
               then sharp_call nd (Sharp_sharpen 1 1 (sharpening adj / 100)) img
               else Inr img) (\<lambda>img.
     and_then (if noiseReduction adj > 0
               then (if noiseReduction adj / 100 > 0.5
                     then sharp_call nd
                            (Sharp_median (real_of_int (max 1 (Math_round (noiseReduction adj / 100 * 3))))) img
                     else sharp_call nd (Sharp_blur (noiseReduction adj / 100 * 2)) img)
               else Inr img) (\<lambda>img.
     and_then (if clarity adj \<noteq> 0
               then (if clarity adj > 0
                     then sharp_call nd (Sharp_sharpen 3 1 (\<bar>clarity adj\<bar> / 100)) img
                     else sharp_call nd (Sharp_blur (\<bar>clarity adj\<bar> / 100 * 0.5)) img)
               else Inr img) (\<lambda>img.
     and_then (Inr (if truthy_num (vignette adj)
                    then applyVignette nd w img (the (vignette adj)) else img)) (\<lambda>img.
     and_then (Inr (if dehaze adj \<noteq> 0 then applyDehaze nd img (dehaze adj) else img)) (\<lambda>img.
     and_then (Inr (case lensCorrections adj of
                      Some corrections \<Rightarrow> applyLensCorrections nd w img corrections
                    | None \<Rightarrow> img)) (\<lambda>img.
     and_then (Inr (case splitToning adj of
                      Some toning \<Rightarrow> applySplitToning nd img toning | None \<Rightarrow> img)) (\<lambda>img.
     Inr img)))))))))))))))))"

definition processPhoto :: "'w node \<Rightarrow> 'w \<Rightarrow> string \<Rightarrow> PhotoAdjustments \<Rightarrow> string + buffer" where
  "processPhoto nd w filePath adj =
     and_then (processPhoto_stages nd w filePath adj) (\<lambda>img. sharp_toBuffer nd w img)"

subsection \<open>\<open>PhotoProcessor.exportPhoto\<close>\<close>

text \<open>\<^verbatim>\<open>toLowerCase\<close>, on the letters that can make a format name match.\<close>

definition toLowerCase :: "string \<Rightarrow> string" where
  "toLowerCase s =
     map (\<lambda>c. case map_of (zip ''ABCDEFGHIJKLMNOPQRSTUVWXYZ'' ''abcdefghijklmnopqrstuvwxyz'') c of
                 Some l \<Rightarrow> l | None \<Rightarrow> c) s"

text \<open>The instance handed to \<^verbatim>\<open>toFile\<close>, or the message of the error the \<^verbatim>\<open>catch\<close> swallows.\<close>

definition exportPhoto_image ::
  "'w node \<Rightarrow> 'w \<Rightarrow> string \<Rightarrow> ExportOptions \<Rightarrow> PhotoAdjustments option \<Rightarrow> string + sharp" where
  "exportPhoto_image nd w filePath opts adjs =
     and_then (case adjs of
                 None \<Rightarrow> Inr (sharp_open (FromFile filePath))
               | Some adj \<Rightarrow>
                   and_then (processPhoto nd w filePath adj)
                     (\<lambda>processedBuffer. Inr (sharp_open (FromBuffer processedBuffer)))) (\<lambda>img.
     and_then (if truthy_num (width opts) \<or> truthy_num (height opts)
               then sharp_call nd
                      (Sharp_resize (width opts) (height opts)
                         (if truthy_string (fit opts) then the (fit opts) else ''inside'') True) img
               else Inr img) (\<lambda>img.
       let fmt = toLowerCase (format opts);
           q = (if quality opts \<noteq> 0 then quality opts else 90)
       in if fmt = ''jpeg'' \<or> fmt = ''jpg'' then sharp_call nd (Sharp_jpeg q True True) img
          else if fmt = ''png'' then sharp_call nd (Sharp_png q 9 True) img
          else if fmt = ''webp'' then sharp_call nd (Sharp_webp q 6) img
          else if fmt = ''tiff'' \<or> fmt = ''tif'' then sharp_call nd (Sharp_tiff q ''jpeg'') img
          else Inl (''Unsupported export format: '' @ format opts)))"

definition exportPhoto ::
  "'w node \<Rightarrow> 'w \<Rightarrow> string \<Rightarrow> string \<Rightarrow> ExportOptions \<Rightarrow> PhotoAdjustments option \<Rightarrow> bool \<times> 'w" where
  "exportPhoto nd w filePath outputPath opts adjs =
     (case exportPhoto_image nd w filePath opts adjs of
        Inl e \<Rightarrow> (False, w)
      | Inr img \<Rightarrow>
          (case sharp_toFile nd w img outputPath of
             (Some e, w1) \<Rightarrow> (False, w1)
           | (None, w1) \<Rightarrow> (True, w1)))"

section \<open>The batch processor (BatchProcessor.ts)\<close>

subsection \<open>One file: \<open>BatchProcessor.processFile\<close>\<close>

text \<open>
  \<open>Inl message\<close> when the function throws, \<open>Inr ()\<close> when it returns. The buffer returned by
  \<open>processPhoto\<close> is not used, \<open>exportPhoto\<close> is called without adjustments, and its
  boolean result is dropped, as in the source.
\<close>

definition processFile ::
  "'w node \<Rightarrow> 'w \<Rightarrow> BatchJob \<Rightarrow> string \<Rightarrow> nat \<Rightarrow> (string + unit) \<times> 'w" where
  "processFile nd w job inputFile index =
     (if \<not> existsSync nd w inputFile then (Inl ''Input file does not exist'', w)
      else
        let outputFilename = generateOutputFilename inputFile job index;
            outputPath = path_join nd (outputDirectory job) outputFilename
        in if existsSync nd w outputPath \<and> overwrite (exportOptions job) \<noteq> Some True
           then (Inl ''Output file exists and overwrite is disabled'', w)
           else
             (case processPhoto nd w inputFile (adjustments job) of
                Inl e \<Rightarrow> (Inl e, w)
              | Inr processedBuffer \<Rightarrow>
                  (Inr (), snd (exportPhoto nd w inputFile outputPath (exportOptions job) None))))"

subsection \<open>One job: \<open>BatchProcessor.processJob\<close>\<close>

text \<open>\<^verbatim>\<open>error?.message || 'Unknown error'\<close>.\<close>

definition message_or_unknown :: "string \<Rightarrow> string" where
  "message_or_unknown msg = (if msg = [] then ''Unknown error'' else msg)"

text \<open>The statements before the loop.\<close>

definition processJob_begin :: "nat \<Rightarrow> BatchJob \<Rightarrow> BatchJob" where
  "processJob_begin now job =
     job\<lparr>status := Processing, startedDate := Some now, progress := 0,
         processedFiles := 0, errors := []\<rparr>"

text \<open>
  The body of the loop at index \<open>i\<close> (\<open>i < length (inputFiles job)\<close>, by the loop's test):
  the inner \<^verbatim>\<open>try\<close>/\<^verbatim>\<open>catch\<close> and the progress update.
\<close>

definition processJob_file :: "'w node \<Rightarrow> 'w \<Rightarrow> BatchJob \<Rightarrow> nat \<Rightarrow> BatchJob \<times> 'w" where
  "processJob_file nd w job i =
     (let inputFile = inputFiles job ! i;
          (r, w1) = processFile nd w job inputFile i;
          job1 =
            (case r of
               Inr u \<Rightarrow> job\<lparr>processedFiles := processedFiles job + 1\<rparr>
             | Inl msg \<Rightarrow>
                 job\<lparr>errors := errors job @
                   [''Failed to process '' @ path_basename inputFile @ '': '' @ message_or_unknown msg]\<rparr>)
      in (job1\<lparr>progress := Math_round (real (i + 1) / real (totalFiles job1) * 100)\<rparr>, w1))"

text \<open>The statements after the loop.\<close>

definition processJob_complete :: "nat \<Rightarrow> BatchJob \<Rightarrow> BatchJob" where
  "processJob_complete now job =
     job\<lparr>status := (if errors job = [] then Completed else Failed),
         completedDate := Some now, progress := 100\<rparr>"

lemma inputFiles_processJob_file [simp]:
  "inputFiles (fst (processJob_file nd w job i)) = inputFiles job"
  by (simp add: processJob_file_def Let_def split: prod.splits sum.splits)

text \<open>The \<^verbatim>\<open>for\<close> loop from index \<open>i\<close> on, when nothing else runs in between.\<close>

function processJob_loop :: "'w node \<Rightarrow> 'w \<Rightarrow> BatchJob \<Rightarrow> nat \<Rightarrow> BatchJob \<times> 'w" where
  "processJob_loop nd w job i =
     (if i < length (inputFiles job)
      then processJob_loop nd (snd (processJob_file nd w job i)) (fst (processJob_file nd w job i)) (Suc i)
      else (job, w))"
  by pat_completeness auto
termination
  by (relation "measure (\<lambda>(nd, w, job, i). length (inputFiles job) - i)") auto

declare processJob_loop.simps [simp del]

text \<open>
  The whole of \<open>processJob\<close>, run without interruption. The outer \<^verbatim>\<open>catch\<close> is not modelled:
  for a job whose \<open>inputFiles\<close> are strings no statement outside the inner \<^verbatim>\<open>try\<close> throws.
\<close>

definition processJob :: "'w node \<Rightarrow> 'w \<Rightarrow> BatchJob \<Rightarrow> BatchJob \<times> 'w" where
  "processJob nd w job =
     (let r = processJob_loop nd w (processJob_begin (date_now nd w) job) 0
      in (processJob_complete (date_now nd (snd r)) (fst r), snd r))"

subsection \<open>The processor: registry, queue and suspended jobs\<close>

text \<open>
  \<open>BatchJob\<close> values are JavaScript objects, shared by reference between the registry, the
  caller and the running \<open>processJob\<close>: \<open>objects\<close> holds every job object allocated so far
  and a reference is an index into it. \<open>activeJobs\<close> is the \<^verbatim>\<open>Map\<close> from id to job, in
  insertion order. An \<^verbatim>\<open>async\<close> function runs until its first \<^verbatim>\<open>await\<close>: a \<open>processJob\<close>
  that waits for a file is an entry \<open>(reference, i)\<close> of \<open>suspended\<close>, and \<open>timers\<close> counts
  the pending \<^verbatim>\<open>setTimeout(() => this.processQueue(), 100)\<close>.
\<close>

record 'w BatchProcessor =
  world :: 'w
  objects :: "BatchJob list"
  activeJobs :: "(string \<times> nat) list"
  jobQueue :: "string list"
  isProcessing :: bool
  maxConcurrentJobs :: int
  suspended :: "(nat \<times> nat) list"
  timers :: nat

definition new_BatchProcessor :: "'w \<Rightarrow> 'w BatchProcessor" where
  "new_BatchProcessor w =
     \<lparr>world = w, objects = [], activeJobs = [], jobQueue = [], isProcessing = False,
      maxConcurrentJobs = 3, suspended = [], timers = 0\<rparr>"

text \<open>\<^verbatim>\<open>Map.set\<close>: an existing key keeps its place.\<close>

fun Map_set :: "('k \<times> 'v) list \<Rightarrow> 'k \<Rightarrow> 'v \<Rightarrow> ('k \<times> 'v) list" where
  "Map_set [] k v = [(k, v)]"
| "Map_set ((k', v') # m) k v = (if k' = k then (k, v) # m else (k', v') # Map_set m k v)"

definition getJob :: "'w BatchProcessor \<Rightarrow> string \<Rightarrow> BatchJob option" where
  "getJob s jobId = map_option (\<lambda>r. objects s ! r) (map_of (activeJobs s) jobId)"

text \<open>
  \<open>createBatchJob\<close>; \<open>rnd\<close> is \<^verbatim>\<open>Math.random().toString(36).substr(2, 9)\<close>. The result is the
  reference of the new job and the processor. What the spread operators copy is the
  subject of the section on copies.
\<close>

definition createBatchJob ::
  "'w node \<Rightarrow> 'w BatchProcessor \<Rightarrow> string \<Rightarrow> string \<Rightarrow> string list \<Rightarrow> string \<Rightarrow>
   PhotoAdjustments \<Rightarrow> ExportOptions \<Rightarrow> nat \<times> 'w BatchProcessor" where
  "createBatchJob nd s rnd nm files outDir adj opts =
     (let now = date_now nd (world s);
          job = \<lparr>job_id = ''batch-'' @ toString_nat now @ ''-'' @ rnd,
                 name = nm, inputFiles = files, outputDirectory = outDir,
                 adjustments = adj, exportOptions = opts, status = Pending, progress = 0,
                 createdDate = now, startedDate = None, completedDate = None, errors = [],
                 processedFiles = 0, totalFiles = length files\<rparr>;
          r = length (objects s)
      in (r, s\<lparr>objects := objects s @ [job], activeJobs := Map_set (activeJobs s) (job_id job) r\<rparr>))"

text \<open>
  The part of \<open>processJob\<close> that runs inside \<open>processQueue\<close>, up to the first \<^verbatim>\<open>await\<close>: with
  no input file the loop is skipped and the job completes at once.
\<close>

definition processJob_start :: "'w node \<Rightarrow> 'w BatchProcessor \<Rightarrow> nat \<Rightarrow> 'w BatchProcessor" where
  "processJob_start nd s r =
     (let job = processJob_begin (date_now nd (world s)) (objects s ! r)
      in if inputFiles job = []
         then s\<lparr>objects := (objects s)[r := processJob_complete (date_now nd (world s)) job],
                timers := Suc (timers s)\<rparr>
         else s\<lparr>objects := (objects s)[r := job], suspended := suspended s @ [(r, 0)]\<rparr>)"

lemma jobQueue_processJob_start [simp]: "jobQueue (processJob_start nd s r) = jobQueue s"
  by (simp add: processJob_start_def Let_def)

text \<open>
  The \<^verbatim>\<open>while\<close> loop of \<open>processQueue\<close>; \<open>n\<close> is \<^verbatim>\<open>activeBatches.length\<close>.
\<close>

function processQueue_loop :: "'w node \<Rightarrow> 'w BatchProcessor \<Rightarrow> nat \<Rightarrow> 'w BatchProcessor" where
  "processQueue_loop nd s n =
     (case jobQueue s of
        [] \<Rightarrow> s
      | jobId # rest \<Rightarrow>
          if int n < maxConcurrentJobs s
          then (case map_of (activeJobs s) jobId of
                  None \<Rightarrow> processQueue_loop nd (s\<lparr>jobQueue := rest\<rparr>) n
                | Some r \<Rightarrow>
                    if status (objects s ! r) = Pending
                    then processQueue_loop nd (processJob_start nd (s\<lparr>jobQueue := rest\<rparr>) r) (Suc n)
                    else processQueue_loop nd (s\<lparr>jobQueue := rest\<rparr>) n)
          else s)"
  by pat_completeness auto
termination
  by (relation "measure (\<lambda>(nd, s, n). length (jobQueue s))") auto

declare processQueue_loop.simps [simp del]

text \<open>\<^verbatim>\<open>Array.from(this.activeJobs.values()).filter(job => job.status === 'processing')\<close>.\<close>

definition activeBatches :: "'w BatchProcessor \<Rightarrow> BatchJob list" where
  "activeBatches s =
     filter (\<lambda>job. status job = Processing) (map (\<lambda>(k, r). objects s ! r) (activeJobs s))"

definition processQueue :: "'w node \<Rightarrow> 'w BatchProcessor \<Rightarrow> 'w BatchProcessor" where
  "processQueue nd s =
     (if isProcessing s \<or> jobQueue s = [] then s
      else (processQueue_loop nd (s\<lparr>isProcessing := True\<rparr>)
              (length (activeBatches s)))\<lparr>isProcessing := False\<rparr>)"

definition queueJob :: "'w node \<Rightarrow> 'w BatchProcessor \<Rightarrow> string \<Rightarrow> bool \<times> 'w BatchProcessor" where
  "queueJob nd s jobId =
     (case map_of (activeJobs s) jobId of
        None \<Rightarrow> (False, s)
      | Some r \<Rightarrow>
          let job = objects s ! r
          in if status job \<noteq> Pending then (False, s)
             else if \<not> existsSync nd (world s) (outputDirectory job)
             then (case mkdirSync nd (world s) (outputDirectory job) of
                     (Some msg, w1) \<Rightarrow>
                       (False,
                        s\<lparr>world := w1,
                          objects := (objects s)[r := job\<lparr>status := Failed,
                            errors := errors job @
                              [''Failed to create output directory: '' @ message_or_unknown msg]\<rparr>]\<rparr>)
                   | (None, w1) \<Rightarrow>
                       (True, processQueue nd (s\<lparr>world := w1, jobQueue := jobQueue s @ [jobId]\<rparr>)))
             else (True, processQueue nd (s\<lparr>jobQueue := jobQueue s @ [jobId]\<rparr>)))"

text \<open>\<^verbatim>\<open>indexOf\<close> and \<^verbatim>\<open>splice(queueIndex, 1)\<close> take the first occurrence out: \<open>remove1\<close>.\<close>

definition cancelJob :: "'w BatchProcessor \<Rightarrow> string \<Rightarrow> bool \<times> 'w BatchProcessor" where
  "cancelJob s jobId =
     (case map_of (activeJobs s) jobId of
        None \<Rightarrow> (False, s)
      | Some r \<Rightarrow>
          let job = objects s ! r
          in if status job = Pending
             then (True,
                   s\<lparr>jobQueue := remove1 jobId (jobQueue s),
                     objects := (objects s)[r := job\<lparr>status := Failed,
                       errors := errors job @ [''Job cancelled by user'']\<rparr>]\<rparr>)
             else (False, s))"

definition deleteJob :: "'w BatchProcessor \<Rightarrow> string \<Rightarrow> bool \<times> 'w BatchProcessor" where
  "deleteJob s jobId =
     (case map_of (activeJobs s) jobId of
        None \<Rightarrow> (False, s)
      | Some r \<Rightarrow>
          if status (objects s ! r) = Processing \<or> status (objects s ! r) = Pending
          then (False, s)
          else (True, s\<lparr>activeJobs := filter (\<lambda>(k, r'). k \<noteq> jobId) (activeJobs s)\<rparr>))"

text \<open>
  \<^verbatim>\<open>Math.max(1, Math.min(max, 10))\<close>. The cap is a number of jobs and is an integer here: a
  fractional or NaN argument is outside the model.
\<close>

definition setMaxConcurrentJobs :: "'w BatchProcessor \<Rightarrow> int \<Rightarrow> 'w BatchProcessor" where
  "setMaxConcurrentJobs s mx = s\<lparr>maxConcurrentJobs := max 1 (min mx 10)\<rparr>"

subsection \<open>Interleaving\<close>

text \<open>
  The suspended \<open>processJob\<close> at position \<open>k\<close> goes on: its file is processed, the counters
  are updated, and either the loop waits for the next file or the job completes and
  schedules \<open>processQueue\<close>. The awaits inside the processing of one file are not separate
  steps: between them only the world can change, and the world is a parameter.
\<close>

definition processJob_resume :: "'w node \<Rightarrow> 'w BatchProcessor \<Rightarrow> nat \<Rightarrow> 'w BatchProcessor" where
  "processJob_resume nd s k =
     (if k < length (suspended s)
      then
        let r = fst (suspended s ! k);
            i = snd (suspended s ! k);
            job1 = fst (processJob_file nd (world s) (objects s ! r) i);
            w1 = snd (processJob_file nd (world s) (objects s ! r) i)
        in if Suc i < length (inputFiles job1)
           then s\<lparr>world := w1, objects := (objects s)[r := job1],
                  suspended := (suspended s)[k := (r, Suc i)]\<rparr>
           else s\<lparr>world := w1,
                  objects := (objects s)[r := processJob_complete (date_now nd w1) job1],
                  suspended := take k (suspended s) @ drop (Suc k) (suspended s),
                  timers := Suc (timers s)\<rparr>
      else s)"

text \<open>
  What can happen to a processor: a call of one of its public methods that write, the
  continuation of a suspended \<open>processJob\<close>, and the callback of a timer. Each runs to
  its end before the next starts, as on JavaScript's event loop. \<open>clearCompletedJobs\<close> is a
  series of \<open>deleteJob\<close>, \<open>createBatchJobFromPreset\<close> is \<open>createBatchJob\<close> with the identity
  adjustments, and the other public methods only read.
\<close>

datatype event =
    CreateBatchJob string string "string list" string PhotoAdjustments ExportOptions
  | QueueJob string
  | CancelJob string
  | DeleteJob string
  | SetMaxConcurrentJobs int
  | Resume nat
  | Timeout

fun exec :: "'w node \<Rightarrow> 'w BatchProcessor \<Rightarrow> event \<Rightarrow> 'w BatchProcessor" where
  "exec nd s (CreateBatchJob rnd nm files outDir adj opts) =
     snd (createBatchJob nd s rnd nm files outDir adj opts)"
| "exec nd s (QueueJob jobId) = snd (queueJob nd s jobId)"
| "exec nd s (CancelJob jobId) = snd (cancelJob s jobId)"
| "exec nd s (DeleteJob jobId) = snd (deleteJob s jobId)"
| "exec nd s (SetMaxConcurrentJobs mx) = setMaxConcurrentJobs s mx"
| "exec nd s (Resume k) = processJob_resume nd s k"
| "exec nd s Timeout =
     (if timers s = 0 then s else processQueue nd (s\<lparr>timers := timers s - 1\<rparr>))"

definition run :: "'w node \<Rightarrow> 'w BatchProcessor \<Rightarrow> event list \<Rightarrow> 'w BatchProcessor" where
  "run nd s es = foldl (exec nd) s es"

subsection \<open>A small environment to run the model on\<close>

text \<open>
  The world is the list of the paths on disk, each with the chain of sharp calls that
  wrote it (none for a file that was there before, or for a directory). Nothing can be
  created under \<^verbatim>\<open>/proc\<close>; reading a missing file fails; every chainable call is accepted;
  the clock stands still.
\<close>

type_synonym disk = "(string \<times> sharp_call list) list"

definition demo_node :: "disk node" where
  "demo_node =
     \<lparr>existsSync = (\<lambda>w p. p \<in> set (map fst w)),
      mkdirSync = (\<lambda>w p. if take 5 p = ''/proc''
                          then (Some ''EACCES: permission denied, mkdir'', w)
                          else (None, (p, []) # w)),
      path_join = (\<lambda>d f. d @ ''/'' @ f),
      date_now = (\<lambda>w. 0),
      sharp_rejects = (\<lambda>c. None),
      sharp_metadata = (\<lambda>w img. Inr (Some 640, Some 480)),
      sharp_toBuffer = (\<lambda>w img. case source img of
                          FromFile f \<Rightarrow> if f \<in> set (map fst w) then Inr []
                                        else Inl ''Input file is missing''
                        | FromBuffer b \<Rightarrow> Inr b),
      sharp_toFile = (\<lambda>w img p. (None, (p, calls img) # w))\<rparr>"

definition identityAdjustments :: PhotoAdjustments where
  "identityAdjustments =
     \<lparr>exposure = 0, contrast = 0, highlights = 0, shadows = 0, whites = 0, blacks = 0,
      temperature = 0, tint = 0, vibrance = 0, saturation = 0, sharpening = 0,
      noiseReduction = 0, vignette = None, clarity = 0, dehaze = 0, colorGrading = None,
      toneCurve = None, splitToning = None, lensCorrections = None, hslAdjustments = None\<rparr>"

definition demo_options :: "string \<Rightarrow> ExportOptions" where
  "demo_options fmt =
     \<lparr>format = fmt, quality = 90, width = None, height = None, fit = None, colorSpace = None,
      resolution = None, overwrite = Some True, fileNaming = None\<rparr>"

definition demo_job :: "string list \<Rightarrow> PhotoAdjustments \<Rightarrow> ExportOptions \<Rightarrow> BatchJob" where
  "demo_job files adj opts =
     \<lparr>job_id = ''batch-0-demo'', name = ''demo'', inputFiles = files, outputDirectory = ''out'',
      adjustments = adj, exportOptions = opts, status = Pending, progress = 0,
      createdDate = 0, startedDate = None, completedDate = None, errors = [],
      processedFiles = 0, totalFiles = length files\<rparr>"

text \<open>Runs of the processor on that environment.\<close>

definition demo_disk :: disk where
  "demo_disk = [(''a.jpg'', []), (''out'', [])]"

definition demo_create :: "string \<Rightarrow> string list \<Rightarrow> string \<Rightarrow> event" where
  "demo_create rnd files outDir =
     CreateBatchJob rnd ''demo'' files outDir identityAdjustments (demo_options ''jpeg'')"

definition demo_two_queued :: "disk BatchProcessor" where
  "demo_two_queued =
     run demo_node (new_BatchProcessor demo_disk)
       [demo_create ''r1'' [''a.jpg''] ''out'', demo_create ''r2'' [''a.jpg''] ''out'',
        SetMaxConcurrentJobs 1, QueueJob ''batch-0-r1'', QueueJob ''batch-0-r2'']"

definition demo_completed :: "disk BatchProcessor" where
  "demo_completed =
     run demo_node (new_BatchProcessor demo_disk)
       [demo_create ''r1'' [''a.jpg''] ''out'', QueueJob ''batch-0-r1'', Resume 0]"

definition demo_scenario_A :: "disk BatchProcessor" where
  "demo_scenario_A =
     run demo_node (new_BatchProcessor ((''c.jpg'', []) # demo_disk))
       [demo_create ''r1'' [''a.jpg'', ''missing.jpg'', ''c.jpg''] ''out'', QueueJob ''batch-0-r1'',
        Resume 0, Resume 0, Resume 0]"

definition demo_cancelled :: "disk BatchProcessor" where
  "demo_cancelled =
     run demo_node (new_BatchProcessor demo_disk)
       [demo_create ''r1'' [''a.jpg'', ''b.jpg'', ''c.jpg''] ''out'', CancelJob ''batch-0-r1'']"

definition demo_unwritable :: "disk BatchProcessor" where
  "demo_unwritable =
     run demo_node (new_BatchProcessor demo_disk) [demo_create ''r1'' [''a.jpg''] ''/proc/out'']"

definition demo_twice_queued :: "disk BatchProcessor" where
  "demo_twice_queued =
     run demo_node (new_BatchProcessor demo_disk)
       [demo_create ''r1'' [''a.jpg''] ''out'', demo_create ''r2'' [''a.jpg''] ''out'',
        SetMaxConcurrentJobs 1, QueueJob ''batch-0-r1'', QueueJob ''batch-0-r2'',
        QueueJob ''batch-0-r2'']"

subsection \<open>What per-file isolation asks of \<open>processJob\<close>\<close>

text \<open>
  Every file of the list is attempted, in order, each in the world the one before left,
  whatever the outcome of the earlier ones: the outcomes of \<open>processFile\<close> on the files
  \<open>fs\<close>, the first of them at index \<open>i\<close>.
\<close>

fun file_outcomes :: "'w node \<Rightarrow> 'w \<Rightarrow> BatchJob \<Rightarrow> string list \<Rightarrow> nat \<Rightarrow> (string + unit) list" where
  "file_outcomes nd w job [] i = []"
| "file_outcomes nd w job (f # fs) i =
     fst (processFile nd w job f i) # file_outcomes nd (snd (processFile nd w job f i)) job fs (Suc i)"


definition is_identity :: "PhotoAdjustments \<Rightarrow> bool" where
  "is_identity adj =
     (exposure adj = 0 \<and> contrast adj = 0 \<and> highlights adj = 0 \<and> shadows adj = 0 \<and>
      whites adj = 0 \<and> blacks adj = 0 \<and> temperature adj = 0 \<and> tint adj = 0 \<and>
      vibrance adj = 0 \<and> saturation adj = 0 \<and> sharpening adj = 0 \<and> noiseReduction adj = 0 \<and>
      clarity adj = 0 \<and> dehaze adj = 0 \<and> (vignette adj = None \<or> vignette adj = Some 0) \<and>
      colorGrading adj = None \<and> toneCurve adj = None \<and> splitToning adj = None \<and>
      lensCorrections adj = None \<and> hslAdjustments adj = None)"

section \<open>The copies made by \<open>createBatchJob\<close>\<close>

text \<open>
  What \<^verbatim>\<open>[...inputFiles]\<close>, \<^verbatim>\<open>{ ...adjustments }\<close> and \<^verbatim>\<open>{ ...exportOptions }\<close> copy depends on
  which objects are shared, so here the arguments are references into a heap of
  JavaScript objects. An object is the list of its own properties, an array the list of
  its elements; a property holds a primitive value or a reference.
\<close>

datatype js_value = JS_undefined | JS_number real | JS_string string | JS_boolean bool | JS_ref nat

datatype js_object = JS_record "(string \<times> js_value) list" | JS_array "js_value list"

type_synonym js_heap = "js_object list"

fun properties :: "js_object \<Rightarrow> (string \<times> js_value) list" where
  "properties (JS_record ps) = ps"
| "properties (JS_array xs) = []"

fun elements :: "js_object \<Rightarrow> js_value list" where
  "elements (JS_array xs) = xs"
| "elements (JS_record ps) = []"

text \<open>A new object gets the next free address.\<close>

definition js_new :: "js_heap \<Rightarrow> js_object \<Rightarrow> nat \<times> js_heap" where
  "js_new h obj = (length h, h @ [obj])"

text \<open>\<^verbatim>\<open>v.key\<close>, the chain \<^verbatim>\<open>v.key1.key2...\<close>, and the assignment \<^verbatim>\<open>x.key = v\<close> on the object at \<open>r\<close>.\<close>

definition js_get :: "js_heap \<Rightarrow> js_value \<Rightarrow> string \<Rightarrow> js_value" where
  "js_get h v key =
     (case v of
        JS_ref r \<Rightarrow> (case map_of (properties (h ! r)) key of Some x \<Rightarrow> x | None \<Rightarrow> JS_undefined)
      | _ \<Rightarrow> JS_undefined)"

definition js_path :: "js_heap \<Rightarrow> js_value \<Rightarrow> string list \<Rightarrow> js_value" where
  "js_path h v keys = foldl (js_get h) v keys"

definition js_set :: "js_heap \<Rightarrow> nat \<Rightarrow> string \<Rightarrow> js_value \<Rightarrow> js_heap" where
  "js_set h r key v = h[r := JS_record (Map_set (properties (h ! r)) key v)]"

text \<open>
  \<open>createBatchJob\<close> on references: the array and the two objects are copied one level
  deep (the spread copies the elements and the property values as they are, references
  included), and the job object points to the copies. The result is the reference of the
  job and the heap.
\<close>

definition createBatchJob_heap ::
  "js_heap \<Rightarrow> string \<Rightarrow> real \<Rightarrow> string \<Rightarrow> nat \<Rightarrow> string \<Rightarrow> nat \<Rightarrow> nat \<Rightarrow> nat \<times> js_heap" where
  "createBatchJob_heap h jid now nm inputFiles_ref outDir adjustments_ref exportOptions_ref =
     (let files_copy = js_new h (JS_array (elements (h ! inputFiles_ref)));
          adj_copy = js_new (snd files_copy) (JS_record (properties (h ! adjustments_ref)));
          opts_copy = js_new (snd adj_copy) (JS_record (properties (h ! exportOptions_ref)));
          no_errors = js_new (snd opts_copy) (JS_array [])
      in js_new (snd no_errors)
           (JS_record
              [(''id'', JS_string jid), (''name'', JS_string nm),
               (''inputFiles'', JS_ref (fst files_copy)), (''outputDirectory'', JS_string outDir),
               (''adjustments'', JS_ref (fst adj_copy)),
               (''exportOptions'', JS_ref (fst opts_copy)),
               (''status'', JS_string ''pending''), (''progress'', JS_number 0),
               (''createdDate'', JS_number now), (''errors'', JS_ref (fst no_errors)),
               (''processedFiles'', JS_number 0),
               (''totalFiles'', JS_number (real (length (elements (h ! inputFiles_ref)))))]))"

text \<open>
  A caller's heap: the file list at 0, a tone curve at 1, the adjustments at 2 (their
  \<open>toneCurve\<close> is the object at 1), the file naming at 3 and the export options at 4.
\<close>

definition caller_heap :: js_heap where
  "caller_heap =
     [JS_array [JS_string ''a.jpg''],
      JS_record [(''highlights'', JS_number 0), (''lights'', JS_number 0), (''darks'', JS_number 0),
                 (''shadows'', JS_number 0)],
      JS_record [(''exposure'', JS_number 0), (''contrast'', JS_number 0), (''toneCurve'', JS_ref 1)],
      JS_record [(''prefix'', JS_string ''edit_'')],
      JS_record [(''format'', JS_string ''jpeg''), (''quality'', JS_number 90),
                 (''fileNaming'', JS_ref 3)]]"

definition created_job :: nat where
  "created_job = fst (createBatchJob_heap caller_heap ''batch-0-r1'' 0 ''demo'' 0 ''out'' 2 4)"

definition created_heap :: js_heap where
  "created_heap = snd (createBatchJob_heap caller_heap ''batch-0-r1'' 0 ''demo'' 0 ''out'' 2 4)"

section \<open>Invariants of the processor\<close>

text \<open>
  What holds of a job object whatever happened to it: its file count is that of its
  input list; while pending it has no result yet; once completed it has no error and
  every file is counted; once failed it has an error, and either its loop ran to the end
  (the completion date is set, every file left one outcome) or it never started (no
  completion date, no processed file, the one error being that of the cancellation or of
  the output directory).
\<close>

definition job_ok :: "BatchJob \<Rightarrow> bool" where
  "job_ok j =
     (totalFiles j = length (inputFiles j) \<and>
      (case status j of
         Pending \<Rightarrow> processedFiles j = 0 \<and> errors j = [] \<and> completedDate j = None
       | Processing \<Rightarrow> True
       | Completed \<Rightarrow> errors j = [] \<and> processedFiles j = totalFiles j \<and> completedDate j \<noteq> None
       | Failed \<Rightarrow>
           errors j \<noteq> [] \<and>
           (if completedDate j = None then processedFiles j = 0 \<and> length (errors j) = 1
            else processedFiles j + length (errors j) = totalFiles j)))"

text \<open>
  The suspended loops belong to distinct job objects, each in status processing, and the
  loop index is the number of outcomes recorded so far.
\<close>

definition suspended_ok :: "'w BatchProcessor \<Rightarrow> bool" where
  "suspended_ok s =
     (distinct (map fst (suspended s)) \<and>
      (\<forall>(r, i) \<in> set (suspended s).
         r < length (objects s) \<and> status (objects s ! r) = Processing \<and>
         i < length (inputFiles (objects s ! r)) \<and>
         processedFiles (objects s ! r) + length (errors (objects s ! r)) = i))"

text \<open>The registry holds references of allocated objects, none of them twice.\<close>

definition registry_ok :: "'w BatchProcessor \<Rightarrow> bool" where
  "registry_ok s =
     (distinct (map snd (activeJobs s)) \<and> (\<forall>r \<in> set (map snd (activeJobs s)). r < length (objects s)))"

definition consistent :: "'w BatchProcessor \<Rightarrow> bool" where
  "consistent s = (registry_ok s \<and> suspended_ok s \<and> (\<forall>j \<in> set (objects s). job_ok j))"

text \<open>The number of registered jobs in status processing, against the cap.\<close>

definition within_cap :: "'w BatchProcessor \<Rightarrow> bool" where
  "within_cap s = (int (length (activeBatches s)) \<le> maxConcurrentJobs s)"

text \<open>The same in terms of the fields, for the proofs.\<close>

definition count_proc :: "BatchJob list \<Rightarrow> (string \<times> nat) list \<Rightarrow> nat" where
  "count_proc objs regs = length (filter (\<lambda>(k, r). status (objs ! r) = Processing) regs)"

definition susp_ok :: "BatchJob list \<Rightarrow> (nat \<times> nat) list \<Rightarrow> bool" where
  "susp_ok objs sus =
     (distinct (map fst sus) \<and>
      (\<forall>(r, i) \<in> set sus.
         r < length objs \<and> status (objs ! r) = Processing \<and>
         i < length (inputFiles (objs ! r)) \<and>
         processedFiles (objs ! r) + length (errors (objs ! r)) = i))"

definition objs_ok :: "'w BatchProcessor \<Rightarrow> bool" where
  "objs_ok s = (susp_ok (objects s) (suspended s) \<and> (\<forall>j \<in> set (objects s). job_ok j))"

fun is_SetMaxConcurrentJobs :: "event \<Rightarrow> bool" where
  "is_SetMaxConcurrentJobs (SetMaxConcurrentJobs mx) = True"
| "is_SetMaxConcurrentJobs e = False"

section \<open>Properties\<close>

subsection \<open>The identity adjustment\<close>

text \<open>
  C4. When every scalar of the adjustments is 0 (the optional vignette absent or 0) and no
  optional extension is present, every guard of \<open>processPhoto\<close> skips its stage: no call is
  made on the sharp instance opened on the source file, and the result of \<open>processPhoto\<close>
  is that untouched instance turned into a buffer, that is, the source re-encoded.
\<close>

theorem identity_adjustment_skips_every_stage:
  assumes "is_identity adj"
  shows "processPhoto_stages nd w filePath adj = Inr \<lparr>source = FromFile filePath, calls = []\<rparr> \<and>
         processPhoto nd w filePath adj =
           sharp_toBuffer nd w \<lparr>source = FromFile filePath, calls = []\<rparr>"
proof -
  have stages: "processPhoto_stages nd w filePath adj = Inr \<lparr>source = FromFile filePath, calls = []\<rparr>"
    using assms
    by (auto simp add: is_identity_def processPhoto_stages_def and_then_def truthy_num_def
        sharp_open_def)
  then show ?thesis
    by (simp add: processPhoto_def and_then_def)
qed

theorem identity_adjustment_skips_every_stage_witness:
  "is_identity identityAdjustments \<and>
   processPhoto demo_node [(''a.jpg'', [])] ''a.jpg'' identityAdjustments = Inr []"
proof -
  have h: "is_identity identityAdjustments"
    by (simp add: is_identity_def identityAdjustments_def)
  from identity_adjustment_skips_every_stage [OF h, of demo_node "[(''a.jpg'', [])]" "''a.jpg''"]
  show ?thesis using h by (simp add: demo_node_def)
qed

subsection \<open>Output file names\<close>

text \<open>
  C10. With the prefix \<^verbatim>\<open>edit_\<close>, no suffix, the index included and the export format
  \<^verbatim>\<open>jpeg\<close>, the input \<^verbatim>\<open>photo.jpg\<close> at index 0 gets the output file name
  \<^verbatim>\<open>edit_photo_001.jpg\<close>, whatever the rest of the job and of its export options.
\<close>

theorem generateOutputFilename_scenario_D:
  "generateOutputFilename ''photo.jpg''
     (job\<lparr>exportOptions := opts\<lparr>format := ''jpeg'',
        fileNaming := Some \<lparr>prefix = Some ''edit_'', suffix = None, includeIndex = Some True\<rparr>\<rparr>\<rparr>) 0
   = ''edit_photo_001.jpg''"
  by (simp add: generateOutputFilename_def path_parse_def path_basename_def naming_prefix_def
      naming_suffix_def naming_includeIndex_def truthy_string_def padStart_def Let_def
      toString_nat.simps eval_nat_numeral)

subsection \<open>Per-file isolation\<close>








lemma length_file_outcomes [simp]: "length (file_outcomes nd w job fs i) = length fs"
  by (induction fs arbitrary: w i) simp_all





subsection \<open>What counts as a processed file\<close>

text \<open>What the pipeline does to \<^verbatim>\<open>a.jpg\<close> with contrast 50.\<close>

lemma pipeline_with_contrast_50:
  "processPhoto_stages demo_node [(''a.jpg'', []), (''out'', [])] ''a.jpg''
       (identityAdjustments\<lparr>contrast := 50\<rparr>)
     = Inr \<lparr>source = FromFile ''a.jpg'', calls = [Sharp_linear (3 / 2) 0]\<rparr>"
  by code_simp

text \<open>
  C5 fails on the code. With the unsupported export format \<^verbatim>\<open>gif\<close> the export of
  \<^verbatim>\<open>a.jpg\<close> fails and writes nothing, yet the job ends completed with one processed file
  and no error. With contrast 50 and the format \<^verbatim>\<open>jpeg\<close> the pipeline would call
  \<^verbatim>\<open>linear(1.5, 0)\<close>, but the file written to the output directory carries the encoder's
  call only: the export runs on the input file, not on the pipeline's output.
\<close>

theorem failed_export_is_counted_and_adjustments_are_not_exported:
  "exportPhoto demo_node [(''a.jpg'', []), (''out'', [])] ''a.jpg'' ''out/a.jpg'' (demo_options ''gif'') None
     = (False, [(''a.jpg'', []), (''out'', [])]) \<and>
   processJob demo_node [(''a.jpg'', []), (''out'', [])]
       (demo_job [''a.jpg''] identityAdjustments (demo_options ''gif''))
     = ((demo_job [''a.jpg''] identityAdjustments (demo_options ''gif''))
          \<lparr>status := Completed, progress := 100, startedDate := Some 0, completedDate := Some 0,
           errors := [], processedFiles := 1\<rparr>,
        [(''a.jpg'', []), (''out'', [])]) \<and>
   snd (processJob demo_node [(''a.jpg'', []), (''out'', [])]
       (demo_job [''a.jpg''] (identityAdjustments\<lparr>contrast := 50\<rparr>) (demo_options ''jpeg'')))
     = [(''out/a.jpg'', [Sharp_jpeg 90 True True]), (''a.jpg'', []), (''out'', [])]"
  by code_simp

section \<open>The invariants hold in every reachable state\<close>

subsection \<open>The cap\<close>

lemma length_activeBatches: "length (activeBatches s) = count_proc (objects s) (activeJobs s)"
  by (simp add: activeBatches_def count_proc_def filter_map comp_def case_prod_unfold)

lemma count_proc_update_other:
  "r \<notin> set (map snd regs) \<Longrightarrow> count_proc (objs[r := j]) regs = count_proc objs regs"
  by (induction regs) (auto simp add: count_proc_def)

lemma count_proc_update_le_Suc:
  "distinct (map snd regs) \<Longrightarrow> count_proc (objs[r := j]) regs \<le> Suc (count_proc objs regs)"
proof (induction regs)
  case Nil
  show ?case by (simp add: count_proc_def)
next
  case (Cons a regs)
  obtain k r' where a: "a = (k, r')" by (cases a)
  show ?case
  proof (cases "r' = r")
    case True
    with Cons.prems a have "r \<notin> set (map snd regs)" by simp
    then have "count_proc (objs[r := j]) regs = count_proc objs regs"
      by (rule count_proc_update_other)
    then show ?thesis using a by (simp add: count_proc_def)
  next
    case False
    with Cons a show ?thesis by (simp add: count_proc_def)
  qed
qed

lemma count_proc_update_not_processing:
  "status j \<noteq> Processing \<Longrightarrow> count_proc (objs[r := j]) regs \<le> count_proc objs regs"
proof (induction regs)
  case Nil
  show ?case by (simp add: count_proc_def)
next
  case (Cons a regs)
  obtain k r' where a: "a = (k, r')" by (cases a)
  show ?case
  proof (cases "r' = r \<and> r < length objs")
    case True
    with Cons a show ?thesis by (simp add: count_proc_def le_SucI)
  next
    case False
    then have "objs[r := j] ! r' = objs ! r'" by (cases "r' = r") (auto simp add: list_update_beyond)
    with Cons a show ?thesis by (simp add: count_proc_def)
  qed
qed

lemma count_proc_update_same_status:
  "status j = status (objs ! r) \<Longrightarrow> count_proc (objs[r := j]) regs = count_proc objs regs"
proof (induction regs)
  case Nil
  show ?case by (simp add: count_proc_def)
next
  case (Cons a regs)
  obtain k r' where a: "a = (k, r')" by (cases a)
  have "status (objs[r := j] ! r') = status (objs ! r')"
    using Cons.prems by (cases "r' = r"; cases "r < length objs") (auto simp add: list_update_beyond)
  with Cons a show ?case by (simp add: count_proc_def)
qed

lemma count_proc_append:
  "\<forall>r \<in> set (map snd regs). r < length objs \<Longrightarrow> count_proc (objs @ [j]) regs = count_proc objs regs"
  by (induction regs) (auto simp add: count_proc_def nth_append)

lemma count_proc_filter: "count_proc objs (filter P regs) \<le> count_proc objs regs"
  by (induction regs) (auto simp add: count_proc_def)

lemma count_proc_Map_set:
  "status (objs ! r) \<noteq> Processing \<Longrightarrow> count_proc objs (Map_set regs k r) \<le> count_proc objs regs"
  by (induction regs k r rule: Map_set.induct) (auto simp add: count_proc_def)

lemma set_Map_set: "set (map snd (Map_set regs k r)) \<subseteq> insert r (set (map snd regs))"
  by (induction regs k r rule: Map_set.induct) auto

lemma distinct_Map_set:
  "distinct (map snd regs) \<Longrightarrow> r \<notin> set (map snd regs) \<Longrightarrow> distinct (map snd (Map_set regs k r))"
proof (induction regs k r rule: Map_set.induct)
  case (1 k v)
  show ?case by simp
next
  case (2 k' v' m k v)
  show ?case
  proof (cases "k' = k")
    case True
    with 2(2,3) show ?thesis by simp
  next
    case False
    have "v' \<notin> set (map snd (Map_set m k v))"
      using set_Map_set [of m k v] 2(2,3) by auto
    with False 2 show ?thesis by simp
  qed
qed


lemma activeBatches_frame [simp]:
  "activeBatches (s\<lparr>jobQueue := q\<rparr>) = activeBatches s"
  "activeBatches (s\<lparr>world := w\<rparr>) = activeBatches s"
  "activeBatches (s\<lparr>isProcessing := b\<rparr>) = activeBatches s"
  "activeBatches (s\<lparr>timers := t\<rparr>) = activeBatches s"
  "activeBatches (s\<lparr>suspended := u\<rparr>) = activeBatches s"
  "activeBatches (s\<lparr>maxConcurrentJobs := m\<rparr>) = activeBatches s"
  by (simp_all add: activeBatches_def)

lemma registry_ok_frame [simp]:
  "registry_ok (s\<lparr>jobQueue := q\<rparr>) = registry_ok s"
  "registry_ok (s\<lparr>world := w\<rparr>) = registry_ok s"
  "registry_ok (s\<lparr>isProcessing := b\<rparr>) = registry_ok s"
  "registry_ok (s\<lparr>timers := t\<rparr>) = registry_ok s"
  "registry_ok (s\<lparr>suspended := u\<rparr>) = registry_ok s"
  "registry_ok (s\<lparr>maxConcurrentJobs := m\<rparr>) = registry_ok s"
  "registry_ok (s\<lparr>objects := (objects s)[r := j]\<rparr>) = registry_ok s"
  by (simp_all add: registry_ok_def)

lemma processJob_start_frame [simp]:
  "maxConcurrentJobs (processJob_start nd s r) = maxConcurrentJobs s"
  "activeJobs (processJob_start nd s r) = activeJobs s"
  "length (objects (processJob_start nd s r)) = length (objects s)"
  "isProcessing (processJob_start nd s r) = isProcessing s"
  by (simp_all add: processJob_start_def Let_def)

lemma registry_ok_processJob_start [simp]:
  "registry_ok (processJob_start nd s r) = registry_ok s"
  by (simp add: registry_ok_def)

lemma activeBatches_processJob_start:
  "registry_ok s \<Longrightarrow>
   length (activeBatches (processJob_start nd s r)) \<le> Suc (length (activeBatches s))"
  by (simp add: length_activeBatches processJob_start_def Let_def registry_ok_def
      count_proc_update_le_Suc)

lemma processQueue_loop_frame:
  "maxConcurrentJobs (processQueue_loop nd s n) = maxConcurrentJobs s \<and>
   isProcessing (processQueue_loop nd s n) = isProcessing s \<and>
   registry_ok (processQueue_loop nd s n) = registry_ok s"
proof (induction nd s n rule: processQueue_loop.induct)
  case (1 nd s n)
  show ?case
  proof (cases "jobQueue s")
    case Nil
    then show ?thesis by (subst (1 2 3) processQueue_loop.simps) simp
  next
    case (Cons jobId rest)
    show ?thesis
    proof (cases "int n < maxConcurrentJobs s")
      case False
      with Cons show ?thesis by (subst (1 2 3) processQueue_loop.simps) simp
    next
      case True
      show ?thesis
      proof (cases "map_of (activeJobs s) jobId")
        case None
        from 1(1) [OF Cons True None] Cons True None show ?thesis
          by (subst (1 2 3) processQueue_loop.simps) simp
      next
        case (Some r)
        show ?thesis
        proof (cases "status (objects s ! r) = Pending")
          case P: True
          from 1(2) [OF Cons True Some P] Cons True Some P show ?thesis
            by (subst (1 2 3) processQueue_loop.simps) simp
        next
          case P: False
          from 1(3) [OF Cons True Some P] Cons True Some P show ?thesis
            by (subst (1 2 3) processQueue_loop.simps) simp
        qed
      qed
    qed
  qed
qed

lemma processQueue_loop_cap:
  "registry_ok s \<Longrightarrow> length (activeBatches s) \<le> n \<Longrightarrow>
   int (length (activeBatches (processQueue_loop nd s n))) \<le> max (int n) (maxConcurrentJobs s)"
proof (induction nd s n rule: processQueue_loop.induct)
  case (1 nd s n)
  show ?case
  proof (cases "jobQueue s")
    case Nil
    with "1.prems" show ?thesis by (subst processQueue_loop.simps) simp
  next
    case (Cons jobId rest)
    show ?thesis
    proof (cases "int n < maxConcurrentJobs s")
      case False
      with Cons "1.prems" show ?thesis by (subst processQueue_loop.simps) simp
    next
      case True
      show ?thesis
      proof (cases "map_of (activeJobs s) jobId")
        case None
        from 1(1) [OF Cons True None] "1.prems" Cons True None show ?thesis
          by (subst processQueue_loop.simps) simp
      next
        case (Some r)
        show ?thesis
        proof (cases "status (objects s ! r) = Pending")
          case P: True
          let ?s1 = "processJob_start nd (s\<lparr>jobQueue := rest\<rparr>) r"
          have "length (activeBatches ?s1) \<le> Suc (length (activeBatches (s\<lparr>jobQueue := rest\<rparr>)))"
            by (rule activeBatches_processJob_start) (simp add: "1.prems")
          then have le: "length (activeBatches ?s1) \<le> Suc n" using "1.prems" by simp
          have "registry_ok ?s1" using "1.prems" by simp
          from 1(2) [OF Cons True Some P this le]
          have "int (length (activeBatches (processQueue_loop nd ?s1 (Suc n)))) \<le> max (int (Suc n)) (maxConcurrentJobs s)"
            by simp
          moreover have "processQueue_loop nd s n = processQueue_loop nd ?s1 (Suc n)"
            using Cons True Some P by (subst processQueue_loop.simps) simp
          ultimately show ?thesis using True by simp
        next
          case P: False
          from 1(3) [OF Cons True Some P] "1.prems" Cons True Some P show ?thesis
            by (subst processQueue_loop.simps) simp
        qed
      qed
    qed
  qed
qed

lemma within_cap_processQueue:
  "registry_ok s \<Longrightarrow> within_cap s \<Longrightarrow> within_cap (processQueue nd s)"
  using processQueue_loop_cap [of "s\<lparr>isProcessing := True\<rparr>" "length (activeBatches s)" nd]
  by (simp add: processQueue_def within_cap_def processQueue_loop_frame)

lemma processQueue_frame:
  "maxConcurrentJobs (processQueue nd s) = maxConcurrentJobs s \<and>
   registry_ok (processQueue nd s) = registry_ok s"
  by (simp add: processQueue_def processQueue_loop_frame)



lemma within_cap_frame [simp]:
  "within_cap (s\<lparr>jobQueue := q\<rparr>) = within_cap s"
  "within_cap (s\<lparr>world := w\<rparr>) = within_cap s"
  "within_cap (s\<lparr>timers := t\<rparr>) = within_cap s"
  "within_cap (s\<lparr>suspended := u\<rparr>) = within_cap s"
  by (simp_all add: within_cap_def)


lemma cap_update_not_processing:
  "int (count_proc objs regs) \<le> c \<Longrightarrow> status j \<noteq> Processing \<Longrightarrow>
   int (count_proc (objs[r := j]) regs) \<le> c"
  using count_proc_update_not_processing [of j objs r regs] by simp


lemma cap_update_same_status:
  "int (count_proc objs regs) \<le> c \<Longrightarrow> status j = status (objs ! r) \<Longrightarrow>
   int (count_proc (objs[r := j]) regs) \<le> c"
  using count_proc_update_same_status [of j objs r regs] by simp


lemma createBatchJob_cap:
  assumes "registry_ok s"
  shows "registry_ok (snd (createBatchJob nd s rnd nm files outDir adj opts)) \<and>
         (within_cap s \<longrightarrow> within_cap (snd (createBatchJob nd s rnd nm files outDir adj opts))) \<and>
         maxConcurrentJobs (snd (createBatchJob nd s rnd nm files outDir adj opts)) = maxConcurrentJobs s"
proof -
  let ?r = "length (objects s)"
  obtain j k where cb: "snd (createBatchJob nd s rnd nm files outDir adj opts) =
      s\<lparr>objects := objects s @ [j], activeJobs := Map_set (activeJobs s) k ?r\<rparr>"
    and j: "status j = Pending"
    by (simp add: createBatchJob_def Let_def)
  have fresh: "?r \<notin> set (map snd (activeJobs s))"
    using assms by (auto simp add: registry_ok_def)
  have d: "distinct (map snd (Map_set (activeJobs s) k ?r))"
    using assms fresh by (simp add: distinct_Map_set registry_ok_def)
  have b: "\<forall>r \<in> set (map snd (Map_set (activeJobs s) k ?r)). r < Suc ?r"
    using set_Map_set [of "activeJobs s" k ?r] assms by (fastforce simp add: registry_ok_def)
  have "count_proc (objects s @ [j]) (Map_set (activeJobs s) k ?r)
        \<le> count_proc (objects s @ [j]) (activeJobs s)"
    by (rule count_proc_Map_set) (simp add: j)
  also have "\<dots> = count_proc (objects s) (activeJobs s)"
    using assms by (simp add: count_proc_append registry_ok_def)
  finally have c: "count_proc (objects s @ [j]) (Map_set (activeJobs s) k ?r)
        \<le> count_proc (objects s) (activeJobs s)" .
  have 1: "registry_ok (snd (createBatchJob nd s rnd nm files outDir adj opts))"
    unfolding cb using d b by (simp add: registry_ok_def)
  have 2: "within_cap (snd (createBatchJob nd s rnd nm files outDir adj opts))" if "within_cap s"
    unfolding cb using c that by (simp add: within_cap_def length_activeBatches)
  have 3: "maxConcurrentJobs (snd (createBatchJob nd s rnd nm files outDir adj opts)) = maxConcurrentJobs s"
    unfolding cb by simp
  show ?thesis using 1 2 3 by blast
qed

lemma cancelJob_cases:
  obtains (unchanged) "cancelJob s jobId = (False, s)"
  | (cancelled) r where "map_of (activeJobs s) jobId = Some r" "status (objects s ! r) = Pending"
      "cancelJob s jobId =
         (True, s\<lparr>jobQueue := remove1 jobId (jobQueue s),
                  objects := (objects s)[r := (objects s ! r)\<lparr>status := Failed,
                    errors := errors (objects s ! r) @ [''Job cancelled by user'']\<rparr>]\<rparr>)"
proof (cases "map_of (activeJobs s) jobId")
  case None
  then show ?thesis using unchanged by (simp add: cancelJob_def)
next
  case (Some r)
  show ?thesis
  proof (cases "status (objects s ! r) = Pending")
    case False
    with Some show ?thesis using unchanged by (simp add: cancelJob_def)
  next
    case True
    with Some show ?thesis using cancelled [of r] by (simp add: cancelJob_def Let_def)
  qed
qed


lemma cancelJob_cap:
  "registry_ok (snd (cancelJob s jobId)) = registry_ok s \<and>
   (within_cap s \<longrightarrow> within_cap (snd (cancelJob s jobId))) \<and>
   maxConcurrentJobs (snd (cancelJob s jobId)) = maxConcurrentJobs s"
proof (cases rule: cancelJob_cases [of s jobId])
  case unchanged
  then show ?thesis by simp
next
  case (cancelled r)
  have "int (count_proc ((objects s)[r := j]) (activeJobs s)) \<le> maxConcurrentJobs s"
    if "within_cap s" "status j = Failed" for j
    using that by (intro cap_update_not_processing) (simp_all add: within_cap_def length_activeBatches)
  then show ?thesis
    using cancelled by (simp add: registry_ok_def within_cap_def length_activeBatches)
qed


lemma deleteJob_cap:
  "(registry_ok s \<longrightarrow> registry_ok (snd (deleteJob s jobId))) \<and>
   (within_cap s \<longrightarrow> within_cap (snd (deleteJob s jobId))) \<and>
   maxConcurrentJobs (snd (deleteJob s jobId)) = maxConcurrentJobs s"
proof -
  have "count_proc (objects s) (filter (\<lambda>(k, r'). k \<noteq> jobId) (activeJobs s)) \<le> count_proc (objects s) (activeJobs s)"
    by (rule count_proc_filter)
  then show ?thesis
    by (auto simp add: deleteJob_def registry_ok_def within_cap_def length_activeBatches
        distinct_map_filter split: option.splits)
qed




lemma queueJob_cases:
  obtains (unchanged) "queueJob nd s jobId = (False, s)"
  | (failed) r msg w1 where "map_of (activeJobs s) jobId = Some r" "status (objects s ! r) = Pending"
      "\<not> existsSync nd (world s) (outputDirectory (objects s ! r))"
      "mkdirSync nd (world s) (outputDirectory (objects s ! r)) = (Some msg, w1)"
      "queueJob nd s jobId =
         (False, s\<lparr>world := w1, objects := (objects s)[r := (objects s ! r)\<lparr>status := Failed,
            errors := errors (objects s ! r) @
              [''Failed to create output directory: '' @ message_or_unknown msg]\<rparr>]\<rparr>)"
  | (queued) r w1 where "map_of (activeJobs s) jobId = Some r" "status (objects s ! r) = Pending"
      "queueJob nd s jobId = (True, processQueue nd (s\<lparr>world := w1, jobQueue := jobQueue s @ [jobId]\<rparr>))"
proof (cases "map_of (activeJobs s) jobId")
  case None
  then show ?thesis using unchanged by (simp add: queueJob_def)
next
  case (Some r)
  show ?thesis
  proof (cases "status (objects s ! r) = Pending")
    case False
    with Some show ?thesis using unchanged by (simp add: queueJob_def)
  next
    case P: True
    show ?thesis
    proof (cases "existsSync nd (world s) (outputDirectory (objects s ! r))")
      case True
      with Some P have "queueJob nd s jobId =
          (True, processQueue nd (s\<lparr>world := world s, jobQueue := jobQueue s @ [jobId]\<rparr>))"
        by (simp add: queueJob_def)
      with Some P show ?thesis using queued by blast
    next
      case False
      obtain m w1 where mk: "mkdirSync nd (world s) (outputDirectory (objects s ! r)) = (m, w1)"
        by (cases "mkdirSync nd (world s) (outputDirectory (objects s ! r))")
      show ?thesis
      proof (cases m)
        case None
        with Some P False mk have "queueJob nd s jobId =
            (True, processQueue nd (s\<lparr>world := w1, jobQueue := jobQueue s @ [jobId]\<rparr>))"
          by (simp add: queueJob_def)
        with Some P show ?thesis using queued by blast
      next
        case (Some msg)
        with \<open>map_of (activeJobs s) jobId = Some r\<close> P False mk show ?thesis
          using failed [of r msg w1] by (simp add: queueJob_def Let_def)
      qed
    qed
  qed
qed

lemma queueJob_cap:
  assumes "registry_ok s"
  shows "registry_ok (snd (queueJob nd s jobId)) \<and>
         (within_cap s \<longrightarrow> within_cap (snd (queueJob nd s jobId))) \<and>
         maxConcurrentJobs (snd (queueJob nd s jobId)) = maxConcurrentJobs s"
proof (cases rule: queueJob_cases [of nd s jobId])
  case unchanged
  with assms show ?thesis by simp
next
  case (failed r msg w1)
  with assms show ?thesis
    by (simp add: registry_ok_def within_cap_def length_activeBatches cap_update_not_processing)
next
  case (queued r w1)
  let ?s' = "s\<lparr>world := w1, jobQueue := jobQueue s @ [jobId]\<rparr>"
  have "registry_ok ?s'" "within_cap s \<longrightarrow> within_cap ?s'" "maxConcurrentJobs ?s' = maxConcurrentJobs s"
    using assms by (simp_all add: registry_ok_def within_cap_def length_activeBatches activeBatches_def)
  then show ?thesis
    using queued by (simp add: processQueue_frame within_cap_processQueue)
qed

lemma status_processJob_file [simp]: "status (fst (processJob_file nd w job i)) = status job"
  by (simp add: processJob_file_def Let_def split: prod.splits sum.splits)

lemma processJob_resume_cap:
  "registry_ok (processJob_resume nd s k) = registry_ok s \<and>
   (within_cap s \<longrightarrow> within_cap (processJob_resume nd s k)) \<and>
   maxConcurrentJobs (processJob_resume nd s k) = maxConcurrentJobs s"
  by (simp add: processJob_resume_def Let_def registry_ok_def within_cap_def length_activeBatches
      cap_update_not_processing cap_update_same_status processJob_complete_def)

lemma exec_cap:
  assumes "registry_ok s"
  shows "registry_ok (exec nd s e) \<and>
         (within_cap s \<longrightarrow> \<not> is_SetMaxConcurrentJobs e \<longrightarrow>
            within_cap (exec nd s e) \<and> maxConcurrentJobs (exec nd s e) = maxConcurrentJobs s)"
proof (cases e)
  case (CreateBatchJob rnd nm files outDir adj opts)
  with createBatchJob_cap [OF assms, of nd rnd nm files outDir adj opts] show ?thesis by simp
next
  case (QueueJob jobId)
  with queueJob_cap [OF assms, of nd jobId] show ?thesis by simp
next
  case (CancelJob jobId)
  with cancelJob_cap [of s jobId] assms show ?thesis by simp
next
  case (DeleteJob jobId)
  with deleteJob_cap [of s jobId] assms show ?thesis by simp
next
  case (SetMaxConcurrentJobs mx)
  with assms show ?thesis by (simp add: setMaxConcurrentJobs_def)
next
  case (Resume k)
  with processJob_resume_cap [of nd s k] assms show ?thesis by simp
next
  case Timeout
  with assms show ?thesis
    by (simp add: processQueue_frame within_cap_processQueue)
qed

lemma run_Cons: "run nd s (e # es) = run nd (exec nd s e) es"
  by (simp add: run_def)

lemma run_registry_ok: "registry_ok s \<Longrightarrow> registry_ok (run nd s es)"
proof (induction es arbitrary: s)
  case Nil
  then show ?case by (simp add: run_def)
next
  case (Cons e es)
  from exec_cap [OF Cons.prems, of nd e] have "registry_ok (exec nd s e)" by simp
  then show ?case by (simp add: run_Cons Cons.IH)
qed

lemma run_within_cap:
  "registry_ok s \<Longrightarrow> within_cap s \<Longrightarrow> \<forall>e \<in> set es. \<not> is_SetMaxConcurrentJobs e \<Longrightarrow>
   within_cap (run nd s es) \<and> maxConcurrentJobs (run nd s es) = maxConcurrentJobs s"
proof (induction es arbitrary: s)
  case Nil
  then show ?case by (simp add: run_def)
next
  case (Cons e es)
  from exec_cap [OF Cons.prems(1), of nd e] Cons.prems
  have "registry_ok (exec nd s e)" "within_cap (exec nd s e)"
    "maxConcurrentJobs (exec nd s e) = maxConcurrentJobs s"
    by simp_all
  with Cons.IH [of "exec nd s e"] Cons.prems(3) show ?case by (simp add: run_Cons)
qed

subsection \<open>Jobs and suspended loops\<close>

lemma consistent_alt: "consistent s = (registry_ok s \<and> objs_ok s)"
  by (simp add: consistent_def objs_ok_def suspended_ok_def susp_ok_def)

lemma jobs_ok_update:
  "\<forall>j \<in> set objs. job_ok j \<Longrightarrow> job_ok j' \<Longrightarrow> \<forall>j \<in> set (objs[r := j']). job_ok j"
  using set_update_subset_insert [of objs r j'] by auto

lemma susp_ok_update_other:
  assumes "susp_ok objs sus" "r \<notin> set (map fst sus)"
  shows "susp_ok (objs[r := j]) sus"
proof -
  have "objs[r := j] ! r' = objs ! r'" if "(r', i) \<in> set sus" for r' i
  proof -
    from that have "r' \<in> set (map fst sus)" by force
    with assms(2) have "r \<noteq> r'" by blast
    then show ?thesis by simp
  qed
  with assms(1) show ?thesis
    unfolding susp_ok_def by (simp add: case_prod_unfold) (metis prod.collapse)
qed

lemma susp_ok_not_processing:
  "susp_ok objs sus \<Longrightarrow> status (objs ! r) \<noteq> Processing \<Longrightarrow> r \<notin> set (map fst sus)"
  by (fastforce simp add: susp_ok_def)

lemma susp_ok_append: "susp_ok objs sus \<Longrightarrow> susp_ok (objs @ [j]) sus"
  by (fastforce simp add: susp_ok_def nth_append)

lemma susp_ok_start:
  assumes "susp_ok objs sus" "r < length objs" "status (objs ! r) \<noteq> Processing"
    "status j = Processing" "inputFiles j \<noteq> []" "processedFiles j = 0" "errors j = []"
  shows "susp_ok (objs[r := j]) (sus @ [(r, 0)])"
proof -
  have nin: "r \<notin> set (map fst sus)"
    using assms(1,3) by (rule susp_ok_not_processing)
  then have "susp_ok (objs[r := j]) sus"
    using assms(1) by (simp add: susp_ok_update_other)
  then show ?thesis
    using nin assms(2,4-) by (simp add: susp_ok_def)
qed

lemma susp_ok_split:
  assumes "susp_ok objs (A @ (r, i) # B)"
  shows "susp_ok objs (A @ B)" "r \<notin> set (map fst (A @ B))" "r < length objs"
    "status (objs ! r) = Processing" "i < length (inputFiles (objs ! r))"
    "processedFiles (objs ! r) + length (errors (objs ! r)) = i"
  using assms by (auto simp add: susp_ok_def)

lemma susp_ok_join:
  assumes "susp_ok objs (A @ B)" "r \<notin> set (map fst (A @ B))" "r < length objs"
    "status (objs ! r) = Processing" "i < length (inputFiles (objs ! r))"
    "processedFiles (objs ! r) + length (errors (objs ! r)) = i"
  shows "susp_ok objs (A @ (r, i) # B)"
  using assms by (auto simp add: susp_ok_def)

lemma job_ok_fail_pending:
  "job_ok j \<Longrightarrow> status j = Pending \<Longrightarrow> job_ok (j\<lparr>status := Failed, errors := errors j @ [m]\<rparr>)"
  by (simp add: job_ok_def)

lemma job_ok_begin: "job_ok j \<Longrightarrow> job_ok (processJob_begin now j)"
  by (simp add: job_ok_def processJob_begin_def)

lemma job_ok_complete:
  "totalFiles j = length (inputFiles j) \<Longrightarrow> processedFiles j + length (errors j) = totalFiles j \<Longrightarrow>
   job_ok (processJob_complete now j)"
  by (auto simp add: job_ok_def processJob_complete_def)

lemma processJob_file_facts:
  "totalFiles (fst (processJob_file nd w j i)) = totalFiles j"
  "completedDate (fst (processJob_file nd w j i)) = completedDate j"
  "processedFiles (fst (processJob_file nd w j i)) + length (errors (fst (processJob_file nd w j i)))
     = Suc (processedFiles j + length (errors j))"
  by (simp_all add: processJob_file_def Let_def split: prod.splits sum.splits)

lemma job_ok_file:
  "job_ok j \<Longrightarrow> status j = Processing \<Longrightarrow> job_ok (fst (processJob_file nd w j i))"
  by (simp add: job_ok_def processJob_file_facts)


lemma registry_ref:
  "registry_ok s \<Longrightarrow> map_of (activeJobs s) jobId = Some r \<Longrightarrow> r < length (objects s)"
proof -
  assume ok: "registry_ok s" and m: "map_of (activeJobs s) jobId = Some r"
  from m have "(jobId, r) \<in> set (activeJobs s)" by (rule map_of_SomeD)
  then have "r \<in> set (map snd (activeJobs s))" by force
  with ok show ?thesis by (auto simp add: registry_ok_def)
qed

lemma objs_ok_fail_pending:
  assumes "objs_ok s" "r < length (objects s)" "status (objects s ! r) = Pending"
    and "objects s' = (objects s)[r := (objects s ! r)\<lparr>status := Failed, errors := errors (objects s ! r) @ [m]\<rparr>]"
    and "suspended s' = suspended s"
  shows "objs_ok s'"
proof -
  have jobs: "\<forall>j \<in> set (objects s). job_ok j" and sus: "susp_ok (objects s) (suspended s)"
    using assms(1) by (simp_all add: objs_ok_def)
  have j: "job_ok (objects s ! r)" using jobs assms(2) by simp
  have np: "status (objects s ! r) \<noteq> Processing" using assms(3) by simp
  have nin: "r \<notin> set (map fst (suspended s))"
    by (rule susp_ok_not_processing [OF sus np])
  have 1: "susp_ok (objects s') (suspended s')"
    unfolding assms(4,5) by (rule susp_ok_update_other [OF sus nin])
  have 2: "\<forall>j \<in> set (objects s'). job_ok j"
    unfolding assms(4) by (rule jobs_ok_update [OF jobs job_ok_fail_pending [OF j assms(3)]])
  show ?thesis using 1 2 by (simp add: objs_ok_def)
qed

lemma processJob_start_objs_ok:
  assumes "objs_ok s" "r < length (objects s)" "status (objects s ! r) = Pending"
  shows "objs_ok (processJob_start nd s r)"
proof -
  let ?job = "objects s ! r"
  let ?b = "processJob_begin (date_now nd (world s)) ?job"
  let ?c = "processJob_complete (date_now nd (world s)) ?b"
  have jobs: "\<forall>j \<in> set (objects s). job_ok j" and sus: "susp_ok (objects s) (suspended s)"
    using assms(1) by (simp_all add: objs_ok_def)
  have j: "job_ok ?job" using jobs assms(2) by simp
  have np: "status (objects s ! r) \<noteq> Processing" using assms(3) by simp
  have nin: "r \<notin> set (map fst (suspended s))"
    by (rule susp_ok_not_processing [OF sus np])
  show ?thesis
  proof (cases "inputFiles ?job = []")
    case True
    have tf: "totalFiles ?b = length (inputFiles ?b)"
      using j by (simp add: processJob_begin_def job_ok_def)
    have pe: "processedFiles ?b + length (errors ?b) = totalFiles ?b"
      using j True by (simp add: processJob_begin_def job_ok_def)
    have c: "job_ok ?c" by (rule job_ok_complete [OF tf pe])
    have 1: "\<forall>j \<in> set ((objects s)[r := ?c]). job_ok j"
      by (rule jobs_ok_update [OF jobs c])
    have 2: "susp_ok ((objects s)[r := ?c]) (suspended s)"
      by (rule susp_ok_update_other [OF sus nin])
    have "processJob_start nd s r = s\<lparr>objects := (objects s)[r := ?c], timers := Suc (timers s)\<rparr>"
      using True by (simp add: processJob_start_def Let_def processJob_begin_def)
    then show ?thesis using 1 2 by (simp add: objs_ok_def)
  next
    case False
    have 1: "\<forall>j \<in> set ((objects s)[r := ?b]). job_ok j"
      by (rule jobs_ok_update [OF jobs job_ok_begin [OF j]])
    have 2: "susp_ok ((objects s)[r := ?b]) (suspended s @ [(r, 0)])"
      by (rule susp_ok_start [OF sus assms(2) np]) (simp_all add: processJob_begin_def False)
    have "processJob_start nd s r = s\<lparr>objects := (objects s)[r := ?b], suspended := suspended s @ [(r, 0)]\<rparr>"
      using False by (simp add: processJob_start_def Let_def processJob_begin_def)
    then show ?thesis using 1 2 by (simp add: objs_ok_def)
  qed
qed

lemma objs_ok_frame [simp]:
  "objs_ok (s\<lparr>jobQueue := q\<rparr>) = objs_ok s"
  "objs_ok (s\<lparr>world := w\<rparr>) = objs_ok s"
  "objs_ok (s\<lparr>isProcessing := b\<rparr>) = objs_ok s"
  "objs_ok (s\<lparr>timers := t\<rparr>) = objs_ok s"
  "objs_ok (s\<lparr>maxConcurrentJobs := m\<rparr>) = objs_ok s"
  "objs_ok (s\<lparr>activeJobs := a\<rparr>) = objs_ok s"
  by (simp_all add: objs_ok_def)

lemma processQueue_loop_objs_ok:
  "registry_ok s \<Longrightarrow> objs_ok s \<Longrightarrow> objs_ok (processQueue_loop nd s n)"
proof (induction nd s n rule: processQueue_loop.induct)
  case (1 nd s n)
  show ?case
  proof (cases "jobQueue s")
    case Nil
    with "1.prems" show ?thesis by (subst processQueue_loop.simps) simp
  next
    case (Cons jobId rest)
    show ?thesis
    proof (cases "int n < maxConcurrentJobs s")
      case False
      with Cons "1.prems" show ?thesis by (subst processQueue_loop.simps) simp
    next
      case True
      show ?thesis
      proof (cases "map_of (activeJobs s) jobId")
        case None
        from 1(1) [OF Cons True None] "1.prems" Cons True None show ?thesis
          by (subst processQueue_loop.simps) simp
      next
        case (Some r)
        show ?thesis
        proof (cases "status (objects s ! r) = Pending")
          case P: True
          let ?s0 = "s\<lparr>jobQueue := rest\<rparr>"
          have r: "r < length (objects s)" using "1.prems"(1) Some by (rule registry_ref)
          have "objs_ok (processJob_start nd ?s0 r)"
            by (rule processJob_start_objs_ok) (simp_all add: "1.prems"(2) r P)
          moreover have "registry_ok (processJob_start nd ?s0 r)" using "1.prems"(1) by simp
          ultimately have "objs_ok (processQueue_loop nd (processJob_start nd ?s0 r) (Suc n))"
            using 1(2) [OF Cons True Some P] by simp
          then show ?thesis
            using Cons True Some P by (subst processQueue_loop.simps) simp
        next
          case P: False
          from 1(3) [OF Cons True Some P] "1.prems" Cons True Some P show ?thesis
            by (subst processQueue_loop.simps) simp
        qed
      qed
    qed
  qed
qed

lemma processQueue_objs_ok: "registry_ok s \<Longrightarrow> objs_ok s \<Longrightarrow> objs_ok (processQueue nd s)"
  using processQueue_loop_objs_ok [of "s\<lparr>isProcessing := True\<rparr>" nd "length (activeBatches s)"]
  by (simp add: processQueue_def)

lemma createBatchJob_objs_ok:
  assumes "objs_ok s"
  shows "objs_ok (snd (createBatchJob nd s rnd nm files outDir adj opts))"
proof -
  obtain j k where cb: "snd (createBatchJob nd s rnd nm files outDir adj opts) =
      s\<lparr>objects := objects s @ [j], activeJobs := Map_set (activeJobs s) k (length (objects s))\<rparr>"
    and j: "job_ok j"
    by (simp add: createBatchJob_def Let_def job_ok_def)
  show ?thesis
    unfolding cb using assms j by (simp add: objs_ok_def susp_ok_append)
qed

lemma queueJob_objs_ok:
  assumes "registry_ok s" "objs_ok s"
  shows "objs_ok (snd (queueJob nd s jobId))"
proof (cases rule: queueJob_cases [of nd s jobId])
  case unchanged
  with assms show ?thesis by simp
next
  case (failed r msg w1)
  have "r < length (objects s)" using assms(1) failed(1) by (rule registry_ref)
  then show ?thesis
    unfolding failed(5) by (rule objs_ok_fail_pending [OF assms(2) _ failed(2)]) simp_all
next
  case (queued r w1)
  with assms show ?thesis by (simp add: processQueue_objs_ok)
qed

lemma cancelJob_objs_ok:
  assumes "registry_ok s" "objs_ok s"
  shows "objs_ok (snd (cancelJob s jobId))"
proof (cases rule: cancelJob_cases [of s jobId])
  case unchanged
  with assms show ?thesis by simp
next
  case (cancelled r)
  have "r < length (objects s)" using assms(1) cancelled(1) by (rule registry_ref)
  then show ?thesis
    unfolding cancelled(3) by (rule objs_ok_fail_pending [OF assms(2) _ cancelled(2)]) simp_all
qed

lemma deleteJob_objs_ok: "objs_ok s \<Longrightarrow> objs_ok (snd (deleteJob s jobId))"
  by (simp add: deleteJob_def split: option.splits)


lemma processJob_resume_objs_ok:
  assumes "objs_ok s"
  shows "objs_ok (processJob_resume nd s k)"
proof (cases "k < length (suspended s)")
  case False
  with assms show ?thesis by (simp add: processJob_resume_def)
next
  case True
  define r where "r = fst (suspended s ! k)"
  define i where "i = snd (suspended s ! k)"
  define A where "A = take k (suspended s)"
  define B where "B = drop (Suc k) (suspended s)"
  define job1 where "job1 = fst (processJob_file nd (world s) (objects s ! r) i)"
  define w1 where "w1 = snd (processJob_file nd (world s) (objects s ! r) i)"
  have jobs: "\<forall>j \<in> set (objects s). job_ok j" and sus: "susp_ok (objects s) (suspended s)"
    using assms by (simp_all add: objs_ok_def)
  have dec: "suspended s = A @ (r, i) # B"
    using True by (simp add: A_def B_def r_def i_def id_take_nth_drop)
  note sp = susp_ok_split [OF sus [unfolded dec]]
  have j: "job_ok (objects s ! r)" using jobs sp(3) by simp
  have j1: "job_ok job1"
    unfolding job1_def by (rule job_ok_file [OF j sp(4)])
  have st1: "status job1 = Processing" by (simp add: job1_def sp(4))
  have if1: "inputFiles job1 = inputFiles (objects s ! r)" by (simp add: job1_def)
  have pe1: "processedFiles job1 + length (errors job1) = Suc i"
    by (simp add: job1_def processJob_file_facts sp(6))
  have rest: "susp_ok ((objects s)[r := j']) (A @ B)" for j'
    by (rule susp_ok_update_other [OF sp(1) sp(2)])
  show ?thesis
  proof (cases "Suc i < length (inputFiles job1)")
    case C: True
    have 1: "\<forall>j \<in> set ((objects s)[r := job1]). job_ok j"
      by (rule jobs_ok_update [OF jobs j1])
    have 2: "susp_ok ((objects s)[r := job1]) (A @ (r, Suc i) # B)"
      by (rule susp_ok_join [OF rest sp(2)]) (simp_all add: sp(3) st1 C pe1)
    have upd: "(suspended s)[k := (r, Suc i)] = A @ (r, Suc i) # B"
      using True by (simp add: A_def B_def upd_conv_take_nth_drop)
    have "processJob_resume nd s k =
        s\<lparr>world := w1, objects := (objects s)[r := job1], suspended := A @ (r, Suc i) # B\<rparr>"
      using True C [unfolded if1] upd
      by (simp add: processJob_resume_def Let_def r_def [symmetric] i_def [symmetric]
          job1_def [symmetric] w1_def [symmetric])
    then show ?thesis using 1 2 by (simp add: objs_ok_def)
  next
    case C: False
    let ?c = "processJob_complete (date_now nd w1) job1"
    have tf: "totalFiles job1 = length (inputFiles job1)" using j1 by (simp add: job_ok_def)
    have "Suc i = length (inputFiles job1)" using C sp(5) if1 by simp
    then have pe: "processedFiles job1 + length (errors job1) = totalFiles job1"
      using pe1 tf by simp
    have 1: "\<forall>j \<in> set ((objects s)[r := ?c]). job_ok j"
      by (rule jobs_ok_update [OF jobs job_ok_complete [OF tf pe]])
    have "processJob_resume nd s k =
        s\<lparr>world := w1, objects := (objects s)[r := ?c], suspended := A @ B, timers := Suc (timers s)\<rparr>"
      using True C [unfolded if1]
      by (simp add: processJob_resume_def Let_def r_def [symmetric] i_def [symmetric]
          job1_def [symmetric] w1_def [symmetric] A_def B_def)
    then show ?thesis using 1 rest [of ?c] by (simp add: objs_ok_def)
  qed
qed

lemma exec_objs_ok:
  assumes "registry_ok s" "objs_ok s"
  shows "objs_ok (exec nd s e)"
proof (cases e)
  case (CreateBatchJob rnd nm files outDir adj opts)
  with createBatchJob_objs_ok [OF assms(2), of nd rnd nm files outDir adj opts] show ?thesis by simp
next
  case (QueueJob jobId)
  with queueJob_objs_ok [OF assms, of nd jobId] show ?thesis by simp
next
  case (CancelJob jobId)
  with cancelJob_objs_ok [OF assms, of jobId] show ?thesis by simp
next
  case (DeleteJob jobId)
  with deleteJob_objs_ok [OF assms(2), of jobId] show ?thesis by simp
next
  case (SetMaxConcurrentJobs mx)
  with assms show ?thesis by (simp add: setMaxConcurrentJobs_def)
next
  case (Resume k)
  with processJob_resume_objs_ok [OF assms(2), of nd k] show ?thesis by simp
next
  case Timeout
  with assms show ?thesis by (simp add: processQueue_objs_ok)
qed

lemma exec_consistent: "consistent s \<Longrightarrow> consistent (exec nd s e)"
  using exec_cap [of s nd e] exec_objs_ok [of s nd e] by (simp add: consistent_alt)

lemma run_consistent: "consistent s \<Longrightarrow> consistent (run nd s es)"
proof (induction es arbitrary: s)
  case Nil
  then show ?case by (simp add: run_def)
next
  case (Cons e es)
  from exec_consistent [OF Cons.prems] show ?case by (simp add: run_Cons Cons.IH)
qed

lemma consistent_new: "consistent (new_BatchProcessor w)"
  by (simp add: consistent_def registry_ok_def suspended_ok_def new_BatchProcessor_def)

lemma within_cap_new: "within_cap (new_BatchProcessor w)"
  by (simp add: within_cap_def activeBatches_def new_BatchProcessor_def)


subsection \<open>Every reachable state is consistent\<close>

lemma reachable_consistent: "consistent (run nd (new_BatchProcessor w0) es)"
  by (rule run_consistent [OF consistent_new])

lemma getJob_object:
  assumes "consistent s" "getJob s jobId = Some job"
  shows "\<exists>r. map_of (activeJobs s) jobId = Some r \<and> r < length (objects s) \<and> job = objects s ! r \<and>
             job \<in> set (objects s) \<and> job_ok job"
proof -
  from assms(2) obtain r where r: "map_of (activeJobs s) jobId = Some r" "job = objects s ! r"
    by (auto simp add: getJob_def)
  have lt: "r < length (objects s)"
    using assms(1) r(1) by (intro registry_ref) (simp_all add: consistent_def)
  then have "job \<in> set (objects s)" using r(2) by simp
  moreover from this have "job_ok job" using assms(1) by (simp add: consistent_def)
  ultimately show ?thesis using r lt by blast
qed


subsection \<open>Admission\<close>

text \<open>\<open>processQueue\<close> takes job ids from the front of the queue only.\<close>

lemma processQueue_loop_queue:
  "\<exists>k. jobQueue (processQueue_loop nd s n) = drop k (jobQueue s)"
proof (induction nd s n rule: processQueue_loop.induct)
  case (1 nd s n)
  show ?case
  proof (cases "jobQueue s")
    case Nil
    then show ?thesis by (subst processQueue_loop.simps) simp
  next
    case (Cons jobId rest)
    have tl: "\<exists>k. q = drop k rest \<Longrightarrow> \<exists>k. q = drop k (jobQueue s)" for q
    proof -
      assume "\<exists>k. q = drop k rest"
      then obtain k where "q = drop k rest" ..
      then have "q = drop (Suc k) (jobQueue s)" using Cons by simp
      then show ?thesis ..
    qed
    show ?thesis
    proof (cases "int n < maxConcurrentJobs s")
      case False
      have "jobQueue s = drop 0 (jobQueue s)" by simp
      then have "\<exists>k. jobQueue s = drop k (jobQueue s)" ..
      with Cons False show ?thesis by (subst processQueue_loop.simps) simp
    next
      case True
      show ?thesis
      proof (cases "map_of (activeJobs s) jobId")
        case None
        from 1(1) [OF Cons True None] have "\<exists>k. jobQueue (processQueue_loop nd (s\<lparr>jobQueue := rest\<rparr>) n) = drop k rest"
          by simp
        then have "\<exists>k. jobQueue (processQueue_loop nd (s\<lparr>jobQueue := rest\<rparr>) n) = drop k (jobQueue s)"
          by (rule tl)
        with Cons True None show ?thesis by (subst processQueue_loop.simps) simp
      next
        case (Some r)
        show ?thesis
        proof (cases "status (objects s ! r) = Pending")
          case P: True
          from 1(2) [OF Cons True Some P]
          have "\<exists>k. jobQueue (processQueue_loop nd (processJob_start nd (s\<lparr>jobQueue := rest\<rparr>) r) (Suc n)) = drop k rest"
            by simp
          then have "\<exists>k. jobQueue (processQueue_loop nd (processJob_start nd (s\<lparr>jobQueue := rest\<rparr>) r) (Suc n)) = drop k (jobQueue s)"
            by (rule tl)
          with Cons True Some P show ?thesis by (subst processQueue_loop.simps) simp
        next
          case P: False
          from 1(3) [OF Cons True Some P]
          have "\<exists>k. jobQueue (processQueue_loop nd (s\<lparr>jobQueue := rest\<rparr>) n) = drop k rest"
            by simp
          then have "\<exists>k. jobQueue (processQueue_loop nd (s\<lparr>jobQueue := rest\<rparr>) n) = drop k (jobQueue s)"
            by (rule tl)
          with Cons True Some P show ?thesis by (subst processQueue_loop.simps) simp
        qed
      qed
    qed
  qed
qed

lemma processQueue_queue: "\<exists>k. jobQueue (processQueue nd s) = drop k (jobQueue s)"
proof (cases "isProcessing s \<or> jobQueue s = []")
  case True
  have "jobQueue s = drop 0 (jobQueue s)" by simp
  then have "\<exists>k. jobQueue s = drop k (jobQueue s)" ..
  with True show ?thesis by (simp add: processQueue_def)
next
  case False
  from processQueue_loop_queue [of nd "s\<lparr>isProcessing := True\<rparr>" "length (activeBatches s)"]
  show ?thesis using False by (simp add: processQueue_def)
qed

lemma processQueue_at_cap:
  assumes "maxConcurrentJobs s \<le> int (length (activeBatches s))"
  shows "processQueue nd s = s"
proof (cases "isProcessing s \<or> jobQueue s = []")
  case True
  then show ?thesis by (simp add: processQueue_def)
next
  case False
  have "processQueue_loop nd (s\<lparr>isProcessing := True\<rparr>) (length (activeBatches s)) = s\<lparr>isProcessing := True\<rparr>"
    using assms by (subst processQueue_loop.simps) (simp split: list.splits)
  with False show ?thesis by (simp add: processQueue_def)
qed

text \<open>A job that is no longer pending never becomes pending again in the loop.\<close>

lemma processQueue_loop_not_pending:
  "r < length (objects s) \<Longrightarrow> status (objects s ! r) \<noteq> Pending \<Longrightarrow>
   status (objects (processQueue_loop nd s n) ! r) \<noteq> Pending"
proof (induction nd s n rule: processQueue_loop.induct)
  case (1 nd s n)
  show ?case
  proof (cases "jobQueue s")
    case Nil
    with "1.prems" show ?thesis by (subst processQueue_loop.simps) simp
  next
    case (Cons jobId rest)
    show ?thesis
    proof (cases "int n < maxConcurrentJobs s")
      case False
      with Cons "1.prems" show ?thesis by (subst processQueue_loop.simps) simp
    next
      case True
      show ?thesis
      proof (cases "map_of (activeJobs s) jobId")
        case None
        from 1(1) [OF Cons True None] "1.prems" Cons True None show ?thesis
          by (subst processQueue_loop.simps) simp
      next
        case (Some r')
        show ?thesis
        proof (cases "status (objects s ! r') = Pending")
          case P: True
          let ?s1 = "processJob_start nd (s\<lparr>jobQueue := rest\<rparr>) r'"
          have ne: "r' \<noteq> r" using P "1.prems"(2) by auto
          have "objects ?s1 ! r = objects s ! r"
            using ne by (simp add: processJob_start_def Let_def)
          with 1(2) [OF Cons True Some P] "1.prems"
          have "status (objects (processQueue_loop nd ?s1 (Suc n)) ! r) \<noteq> Pending" by simp
          with Cons True Some P show ?thesis by (subst processQueue_loop.simps) simp
        next
          case P: False
          from 1(3) [OF Cons True Some P] "1.prems" Cons True Some P show ?thesis
            by (subst processQueue_loop.simps) simp
        qed
      qed
    qed
  qed
qed

lemma processQueue_admits_head:
  assumes "\<not> isProcessing s" "jobQueue s = jobId # rest" "map_of (activeJobs s) jobId = Some r"
    "r < length (objects s)" "status (objects s ! r) = Pending"
    "int (length (activeBatches s)) < maxConcurrentJobs s"
  shows "status (objects (processQueue nd s) ! r) \<noteq> Pending"
proof -
  let ?s0 = "s\<lparr>isProcessing := True\<rparr>"
  let ?s1 = "processJob_start nd (?s0\<lparr>jobQueue := rest\<rparr>) r"
  have st: "status (objects ?s1 ! r) \<noteq> Pending"
    using assms(4) by (simp add: processJob_start_def Let_def processJob_begin_def processJob_complete_def)
  have "processQueue_loop nd ?s0 (length (activeBatches s)) =
        processQueue_loop nd ?s1 (Suc (length (activeBatches s)))"
    using assms by (subst processQueue_loop.simps) simp
  moreover have "status (objects (processQueue_loop nd ?s1 (Suc (length (activeBatches s)))) ! r) \<noteq> Pending"
    by (rule processQueue_loop_not_pending) (simp_all add: assms(4) st)
  ultimately show ?thesis using assms(1,2) by (simp add: processQueue_def)
qed



text \<open>
  C9. The cap is 3 in a new processor and \<open>setMaxConcurrentJobs\<close> clamps its argument to
  1..10. From any reachable state whose cap is \<open>K\<close> and that has at most \<open>K\<close> jobs in
  status processing, whatever happens next (jobs created, queued, cancelled, deleted,
  files processed, timers firing) short of a change of the cap, the number of registered
  jobs in status processing stays at most \<open>K\<close>. \<open>processQueue\<close> leaves a suffix of the
  queue (it pops from the front), pops nothing when the number of processing jobs has
  reached the cap, and below the cap starts the job at the head of the queue.
\<close>

theorem processing_count_never_exceeds_cap:
  assumes "s = run nd (new_BatchProcessor w0) es0"
  shows "maxConcurrentJobs (new_BatchProcessor w0) = 3 \<and>
         maxConcurrentJobs (setMaxConcurrentJobs s mx) = max 1 (min mx 10) \<and>
         1 \<le> maxConcurrentJobs (setMaxConcurrentJobs s mx) \<and>
         maxConcurrentJobs (setMaxConcurrentJobs s mx) \<le> 10 \<and>
         (maxConcurrentJobs s = K \<longrightarrow> int (length (activeBatches s)) \<le> K \<longrightarrow>
          (\<forall>e \<in> set es. \<not> is_SetMaxConcurrentJobs e) \<longrightarrow>
            int (length (activeBatches (run nd s es))) \<le> K \<and> maxConcurrentJobs (run nd s es) = K) \<and>
         (\<exists>k. jobQueue (processQueue nd s) = drop k (jobQueue s)) \<and>
         (maxConcurrentJobs s \<le> int (length (activeBatches s)) \<longrightarrow> processQueue nd s = s) \<and>
         (\<forall>jobId rest r. \<not> isProcessing s \<longrightarrow> jobQueue s = jobId # rest \<longrightarrow>
            map_of (activeJobs s) jobId = Some r \<longrightarrow> status (objects s ! r) = Pending \<longrightarrow>
            int (length (activeBatches s)) < maxConcurrentJobs s \<longrightarrow>
            status (objects (processQueue nd s) ! r) \<noteq> Pending)"
proof -
  have c: "consistent s" unfolding assms by (rule reachable_consistent)
  then have reg: "registry_ok s" by (simp add: consistent_def)
  have 1: "maxConcurrentJobs (new_BatchProcessor w0) = 3" by (simp add: new_BatchProcessor_def)
  have 2: "maxConcurrentJobs (setMaxConcurrentJobs s mx) = max 1 (min mx 10)"
    by (simp add: setMaxConcurrentJobs_def)
  have 3: "1 \<le> maxConcurrentJobs (setMaxConcurrentJobs s mx) \<and>
           maxConcurrentJobs (setMaxConcurrentJobs s mx) \<le> 10"
    unfolding 2 by simp
  have 4: "int (length (activeBatches (run nd s es))) \<le> K \<and> maxConcurrentJobs (run nd s es) = K"
    if "maxConcurrentJobs s = K" "int (length (activeBatches s)) \<le> K"
      "\<forall>e \<in> set es. \<not> is_SetMaxConcurrentJobs e"
    using run_within_cap [OF reg _ that(3), of nd] that(1,2) by (simp add: within_cap_def)
  have 5: "\<exists>k. jobQueue (processQueue nd s) = drop k (jobQueue s)" by (rule processQueue_queue)
  have 6: "processQueue nd s = s" if "maxConcurrentJobs s \<le> int (length (activeBatches s))"
    using that by (rule processQueue_at_cap)
  have 7: "status (objects (processQueue nd s) ! r) \<noteq> Pending"
    if "\<not> isProcessing s" "jobQueue s = jobId # rest" "map_of (activeJobs s) jobId = Some r"
      "status (objects s ! r) = Pending" "int (length (activeBatches s)) < maxConcurrentJobs s"
    for jobId rest r
    by (rule processQueue_admits_head [OF that(1-3) registry_ref [OF reg that(3)] that(4,5)])
  show ?thesis using 1 2 3 4 5 6 7 by blast
qed

theorem processing_count_never_exceeds_cap_witness:
  "maxConcurrentJobs demo_two_queued = 1 \<and>
   int (length (activeBatches demo_two_queued)) \<le> 1 \<and>
   jobQueue demo_two_queued = [''batch-0-r2''] \<and>
   \<not> is_SetMaxConcurrentJobs (Resume 0) \<and> \<not> is_SetMaxConcurrentJobs Timeout \<and>
   int (length (activeBatches (run demo_node demo_two_queued [Resume 0, Timeout]))) \<le> 1 \<and>
   length (activeBatches (run demo_node demo_two_queued [Resume 0, Timeout])) = 1"
proof -
  have a: "maxConcurrentJobs demo_two_queued = 1" by code_simp
  have b: "int (length (activeBatches demo_two_queued)) \<le> 1" by code_simp
  have q: "jobQueue demo_two_queued = [''batch-0-r2'']" by code_simp
  have n: "\<forall>e \<in> set [Resume 0, Timeout]. \<not> is_SetMaxConcurrentJobs e" by simp
  have t: "length (activeBatches (run demo_node demo_two_queued [Resume 0, Timeout])) = 1" by code_simp
  from processing_count_never_exceeds_cap [OF demo_two_queued_def, of _ 1 "[Resume 0, Timeout]"] a b n
  have "int (length (activeBatches (run demo_node demo_two_queued [Resume 0, Timeout]))) \<le> 1"
    by blast
  with a b q t show ?thesis by simp
qed


subsection \<open>Terminal jobs\<close>

lemma reachable_job_ok:
  "j \<in> set (objects (run nd (new_BatchProcessor w0) es)) \<Longrightarrow> job_ok j"
  using reachable_consistent [of nd w0 es] by (simp add: consistent_def)

text \<open>
  C3. In every state the processor can reach, a job object that is completed or failed is
  completed exactly when its error list is empty and failed exactly when it is not; the
  status has no third terminal value.
\<close>

theorem terminal_status_reflects_errors:
  assumes "s = run nd (new_BatchProcessor w0) es" "j \<in> set (objects s)"
    "status j = Completed \<or> status j = Failed"
  shows "(status j = Completed \<longleftrightarrow> errors j = []) \<and> (status j = Failed \<longleftrightarrow> errors j \<noteq> [])"
proof -
  have "job_ok j" using assms(2) unfolding assms(1) by (rule reachable_job_ok)
  with assms(3) show ?thesis by (auto simp add: job_ok_def)
qed

theorem terminal_status_reflects_errors_witness:
  "objects demo_completed ! 0 \<in> set (objects demo_completed) \<and>
   status (objects demo_completed ! 0) = Completed \<and>
   errors (objects demo_completed ! 0) = []"
proof -
  have m: "objects demo_completed ! 0 \<in> set (objects demo_completed)" by code_simp
  have c: "status (objects demo_completed ! 0) = Completed" by code_simp
  from terminal_status_reflects_errors [OF demo_completed_def m] c
  show ?thesis using m by simp
qed

text \<open>
  C2, as amended. In every state the processor can reach, a completed or failed job whose
  loop ran to its end (\<open>processJob\<close> recorded the completion date) has
  \<open>processedFiles + length errors = totalFiles\<close>; a completed or failed job without a
  completion date (a pending job that was cancelled, or whose output directory could not
  be created) is failed with no processed file and exactly one error.
\<close>

theorem terminal_jobs_account_for_their_files:
  assumes "s = run nd (new_BatchProcessor w0) es" "j \<in> set (objects s)"
    "status j = Completed \<or> status j = Failed"
  shows "(completedDate j \<noteq> None \<longrightarrow> processedFiles j + length (errors j) = totalFiles j) \<and>
         (completedDate j = None \<longrightarrow>
            status j = Failed \<and> processedFiles j = 0 \<and> length (errors j) = 1)"
proof -
  have "job_ok j" using assms(2) unfolding assms(1) by (rule reachable_job_ok)
  with assms(3) show ?thesis by (auto simp add: job_ok_def)
qed

theorem terminal_jobs_account_for_their_files_witness:
  "objects demo_scenario_A ! 0 \<in> set (objects demo_scenario_A) \<and>
   status (objects demo_scenario_A ! 0) = Failed \<and>
   completedDate (objects demo_scenario_A ! 0) = Some 0 \<and>
   totalFiles (objects demo_scenario_A ! 0) = 3 \<and>
   processedFiles (objects demo_scenario_A ! 0) + length (errors (objects demo_scenario_A ! 0)) =
     totalFiles (objects demo_scenario_A ! 0)"
proof -
  have m: "objects demo_scenario_A ! 0 \<in> set (objects demo_scenario_A)" by code_simp
  have c: "status (objects demo_scenario_A ! 0) = Failed" by code_simp
  have d: "completedDate (objects demo_scenario_A ! 0) = Some 0" by code_simp
  have t: "totalFiles (objects demo_scenario_A ! 0) = 3" by code_simp
  from terminal_jobs_account_for_their_files [OF demo_scenario_A_def m] c d
  show ?thesis using m t by simp
qed

text \<open>
  C2 as stated fails on cancellation: a pending job of three files, cancelled, is failed
  with no processed file and one error.
\<close>

theorem cancelled_job_breaks_the_file_count:
  "getJob demo_cancelled ''batch-0-r1'' = Some (objects demo_cancelled ! 0) \<and>
   status (objects demo_cancelled ! 0) = Failed \<and>
   errors (objects demo_cancelled ! 0) = [''Job cancelled by user''] \<and>
   processedFiles (objects demo_cancelled ! 0) = 0 \<and>
   totalFiles (objects demo_cancelled ! 0) = 3 \<and>
   processedFiles (objects demo_cancelled ! 0) + length (errors (objects demo_cancelled ! 0))
     \<noteq> totalFiles (objects demo_cancelled ! 0)"
  by code_simp

subsection \<open>\<open>queueJob\<close>\<close>

text \<open>
  C7. In every state the processor can reach, \<open>queueJob\<close> returns false and changes nothing
  when the job does not exist or is not pending. For a pending job whose output directory
  does not exist and cannot be created it returns false, the queue and the suspended jobs
  are as before, and the job is as before except that it is failed with the one error
  \<^verbatim>\<open>Failed to create output directory: <message>\<close>; its \<open>processedFiles\<close> is 0. Otherwise it
  returns true and the state is that of \<open>processQueue\<close> run after the id was appended to
  the queue (in the world left by the creation of the directory, if any).
\<close>

theorem queueJob_outcomes:
  assumes "s = run nd (new_BatchProcessor w0) es"
  shows
    "(getJob s jobId = None \<longrightarrow> queueJob nd s jobId = (False, s)) \<and>
     (\<forall>job. getJob s jobId = Some job \<longrightarrow> status job \<noteq> Pending \<longrightarrow>
        queueJob nd s jobId = (False, s)) \<and>
     (\<forall>job msg w1. getJob s jobId = Some job \<longrightarrow> status job = Pending \<longrightarrow>
        \<not> existsSync nd (world s) (outputDirectory job) \<longrightarrow>
        mkdirSync nd (world s) (outputDirectory job) = (Some msg, w1) \<longrightarrow>
          fst (queueJob nd s jobId) = False \<and>
          jobQueue (snd (queueJob nd s jobId)) = jobQueue s \<and>
          suspended (snd (queueJob nd s jobId)) = suspended s \<and>
          getJob (snd (queueJob nd s jobId)) jobId =
            Some (job\<lparr>status := Failed,
                       errors := [''Failed to create output directory: '' @ message_or_unknown msg]\<rparr>) \<and>
          processedFiles job = 0) \<and>
     (\<forall>job. getJob s jobId = Some job \<longrightarrow> status job = Pending \<longrightarrow>
        existsSync nd (world s) (outputDirectory job) \<longrightarrow>
          queueJob nd s jobId = (True, processQueue nd (s\<lparr>jobQueue := jobQueue s @ [jobId]\<rparr>))) \<and>
     (\<forall>job w1. getJob s jobId = Some job \<longrightarrow> status job = Pending \<longrightarrow>
        \<not> existsSync nd (world s) (outputDirectory job) \<longrightarrow>
        mkdirSync nd (world s) (outputDirectory job) = (None, w1) \<longrightarrow>
          queueJob nd s jobId =
            (True, processQueue nd (s\<lparr>world := w1, jobQueue := jobQueue s @ [jobId]\<rparr>)))"
proof -
  have c: "consistent s" unfolding assms by (rule reachable_consistent)
  have 1: "queueJob nd s jobId = (False, s)" if "getJob s jobId = None"
    using that by (simp add: queueJob_def getJob_def)
  have 2: "queueJob nd s jobId = (False, s)" if "getJob s jobId = Some job" "status job \<noteq> Pending" for job
    using that by (auto simp add: queueJob_def getJob_def)
  have 3: "fst (queueJob nd s jobId) = False \<and>
          jobQueue (snd (queueJob nd s jobId)) = jobQueue s \<and>
          suspended (snd (queueJob nd s jobId)) = suspended s \<and>
          getJob (snd (queueJob nd s jobId)) jobId =
            Some (job\<lparr>status := Failed,
                       errors := [''Failed to create output directory: '' @ message_or_unknown msg]\<rparr>) \<and>
          processedFiles job = 0"
    if g: "getJob s jobId = Some job" and p: "status job = Pending"
      and e: "\<not> existsSync nd (world s) (outputDirectory job)"
      and m: "mkdirSync nd (world s) (outputDirectory job) = (Some msg, w1)" for job msg w1
  proof -
    from getJob_object [OF c g] obtain r where r: "map_of (activeJobs s) jobId = Some r"
      "r < length (objects s)" "job = objects s ! r" "job_ok job" by blast
    have fresh: "errors job = []" "processedFiles job = 0"
      using r(4) p by (simp_all add: job_ok_def)
    have q: "queueJob nd s jobId =
        (False, s\<lparr>world := w1, objects := (objects s)[r := job\<lparr>status := Failed,
           errors := errors job @ [''Failed to create output directory: '' @ message_or_unknown msg]\<rparr>]\<rparr>)"
      using r(1) p e m unfolding r(3) by (simp add: queueJob_def Let_def)
    show ?thesis
      unfolding q using r(1,2) fresh by (simp add: getJob_def)
  qed
  have 4: "queueJob nd s jobId = (True, processQueue nd (s\<lparr>jobQueue := jobQueue s @ [jobId]\<rparr>))"
    if "getJob s jobId = Some job" "status job = Pending"
      "existsSync nd (world s) (outputDirectory job)" for job
    using that by (auto simp add: queueJob_def getJob_def)
  have 5: "queueJob nd s jobId =
            (True, processQueue nd (s\<lparr>world := w1, jobQueue := jobQueue s @ [jobId]\<rparr>))"
    if "getJob s jobId = Some job" "status job = Pending"
      "\<not> existsSync nd (world s) (outputDirectory job)"
      "mkdirSync nd (world s) (outputDirectory job) = (None, w1)" for job w1
    using that by (auto simp add: queueJob_def getJob_def)
  show ?thesis using 1 2 3 4 5 by blast
qed

theorem queueJob_outcomes_witness:
  "getJob demo_unwritable ''batch-0-r1'' = Some (objects demo_unwritable ! 0) \<and>
   status (objects demo_unwritable ! 0) = Pending \<and>
   \<not> existsSync demo_node (world demo_unwritable) (outputDirectory (objects demo_unwritable ! 0)) \<and>
   mkdirSync demo_node (world demo_unwritable) (outputDirectory (objects demo_unwritable ! 0))
     = (Some ''EACCES: permission denied, mkdir'', demo_disk) \<and>
   fst (queueJob demo_node demo_unwritable ''batch-0-r1'') = False \<and>
   jobQueue (snd (queueJob demo_node demo_unwritable ''batch-0-r1'')) = [] \<and>
   getJob (snd (queueJob demo_node demo_unwritable ''batch-0-r1'')) ''batch-0-r1'' =
     Some ((objects demo_unwritable ! 0)\<lparr>status := Failed,
        errors := [''Failed to create output directory: EACCES: permission denied, mkdir'']\<rparr>) \<and>
   processedFiles (objects demo_unwritable ! 0) = 0"
proof -
  have g: "getJob demo_unwritable ''batch-0-r1'' = Some (objects demo_unwritable ! 0)" by code_simp
  have p: "status (objects demo_unwritable ! 0) = Pending" by code_simp
  have e: "\<not> existsSync demo_node (world demo_unwritable) (outputDirectory (objects demo_unwritable ! 0))"
    by code_simp
  have m: "mkdirSync demo_node (world demo_unwritable) (outputDirectory (objects demo_unwritable ! 0))
     = (Some ''EACCES: permission denied, mkdir'', demo_disk)" by code_simp
  have q: "jobQueue demo_unwritable = []" by code_simp
  from queueJob_outcomes [OF demo_unwritable_def, of "''batch-0-r1''"] g p e m
  have "fst (queueJob demo_node demo_unwritable ''batch-0-r1'') = False \<and>
        jobQueue (snd (queueJob demo_node demo_unwritable ''batch-0-r1'')) = jobQueue demo_unwritable \<and>
        suspended (snd (queueJob demo_node demo_unwritable ''batch-0-r1'')) = suspended demo_unwritable \<and>
        getJob (snd (queueJob demo_node demo_unwritable ''batch-0-r1'')) ''batch-0-r1'' =
          Some ((objects demo_unwritable ! 0)\<lparr>status := Failed,
             errors := [''Failed to create output directory: '' @
                        message_or_unknown ''EACCES: permission denied, mkdir'']\<rparr>) \<and>
        processedFiles (objects demo_unwritable ! 0) = 0"
    by blast
  then show ?thesis using g p e m q by (simp add: message_or_unknown_def)
qed
subsection \<open>\<open>cancelJob\<close>\<close>

text \<open>What \<open>cancelJob\<close> does in every state the processor can reach.\<close>

lemma cancelJob_effect:
  assumes "consistent s"
  shows "(getJob s jobId = None \<longrightarrow> cancelJob s jobId = (False, s)) \<and>
         (\<forall>job. getJob s jobId = Some job \<longrightarrow> status job \<noteq> Pending \<longrightarrow>
            cancelJob s jobId = (False, s)) \<and>
         (\<forall>job. getJob s jobId = Some job \<longrightarrow> status job = Pending \<longrightarrow>
            fst (cancelJob s jobId) = True \<and>
            jobQueue (snd (cancelJob s jobId)) = remove1 jobId (jobQueue s) \<and>
            getJob (snd (cancelJob s jobId)) jobId =
              Some (job\<lparr>status := Failed, errors := [''Job cancelled by user'']\<rparr>))"
proof -
  have 1: "cancelJob s jobId = (False, s)" if "getJob s jobId = None"
    using that by (simp add: cancelJob_def getJob_def)
  have 2: "cancelJob s jobId = (False, s)" if "getJob s jobId = Some job" "status job \<noteq> Pending" for job
    using that by (auto simp add: cancelJob_def getJob_def)
  have 3: "fst (cancelJob s jobId) = True \<and>
            jobQueue (snd (cancelJob s jobId)) = remove1 jobId (jobQueue s) \<and>
            getJob (snd (cancelJob s jobId)) jobId =
              Some (job\<lparr>status := Failed, errors := [''Job cancelled by user'']\<rparr>)"
    if g: "getJob s jobId = Some job" and p: "status job = Pending" for job
  proof -
    from getJob_object [OF assms g] obtain r where r: "map_of (activeJobs s) jobId = Some r"
      "r < length (objects s)" "job = objects s ! r" "job_ok job" by blast
    have fresh: "errors job = []" using r(4) p by (simp add: job_ok_def)
    have q: "cancelJob s jobId =
        (True, s\<lparr>jobQueue := remove1 jobId (jobQueue s),
                 objects := (objects s)[r := job\<lparr>status := Failed,
                   errors := errors job @ [''Job cancelled by user'']\<rparr>]\<rparr>)"
      using r(1) p unfolding r(3) by (simp add: cancelJob_def Let_def)
    show ?thesis
      unfolding q using r(1,2) fresh by (simp add: getJob_def)
  qed
  show ?thesis using 1 2 3 by blast
qed

text \<open>
  C8 fails on the code when the job was queued twice. With the cap at 1 and one job
  processing, a second job queued twice is twice in the queue and still pending;
  \<open>cancelJob\<close> returns true and marks it failed, but takes only the first of its two
  entries out: the id of the cancelled job stays in the queue.
\<close>

theorem cancelJob_leaves_a_duplicate_in_the_queue:
  "jobQueue demo_twice_queued = [''batch-0-r2'', ''batch-0-r2''] \<and>
   map_option status (getJob demo_twice_queued ''batch-0-r2'') = Some Pending \<and>
   fst (cancelJob demo_twice_queued ''batch-0-r2'') = True \<and>
   jobQueue (snd (cancelJob demo_twice_queued ''batch-0-r2'')) = [''batch-0-r2''] \<and>
   map_option status (getJob (snd (cancelJob demo_twice_queued ''batch-0-r2'')) ''batch-0-r2'')
     = Some Failed"
  by code_simp



subsection \<open>Copies\<close>

text \<open>
  An assignment to a property of an object the caller holds leaves every object at
  another address as it was: the copies made by \<open>createBatchJob_heap\<close> are new objects.
\<close>

lemma js_set_other: "r' \<noteq> r \<Longrightarrow> js_set h r key v ! r' = h ! r'"
  by (simp add: js_set_def)

text \<open>
  C6 fails on the code for nested objects. After the job is created, the caller's
  assignment \<^verbatim>\<open>adjustments.exposure = 1\<close> leaves the job alone, but
  \<^verbatim>\<open>adjustments.toneCurve.highlights = 50\<close> and \<^verbatim>\<open>exportOptions.fileNaming.prefix = 'x_'\<close>
  change what the job reads: the copies share the nested objects with the caller.
\<close>

theorem nested_adjustments_are_shared_with_the_caller:
  "js_path created_heap (JS_ref created_job) [''adjustments'', ''exposure''] = JS_number 0 \<and>
   js_path (js_set created_heap 2 ''exposure'' (JS_number 1)) (JS_ref created_job)
       [''adjustments'', ''exposure''] = JS_number 0 \<and>
   js_path created_heap (JS_ref created_job) [''adjustments'', ''toneCurve'', ''highlights'']
     = JS_number 0 \<and>
   js_path (js_set created_heap 1 ''highlights'' (JS_number 50)) (JS_ref created_job)
       [''adjustments'', ''toneCurve'', ''highlights''] = JS_number 50 \<and>
   js_path created_heap (JS_ref created_job) [''exportOptions'', ''fileNaming'', ''prefix'']
     = JS_string ''edit_'' \<and>
   js_path (js_set created_heap 3 ''prefix'' (JS_string ''x_'')) (JS_ref created_job)
       [''exportOptions'', ''fileNaming'', ''prefix''] = JS_string ''x_''"
  by code_simp

end
